theory Spec2Isabelle
  imports Complex_Main "HOL-Library.Sublist"
begin

section \<open>Python strings: whitespace splitting and joining\<close>

text \<open>
  A Python \<open>str\<close> is modelled as a \<open>string\<close>, one \<open>char\<close> per code point (code points
  below 256). \<open>str.split()\<close> without arguments cuts at runs of whitespace and returns no
  empty word; the whitespace characters are those for which \<open>str.isspace\<close> holds.
\<close>

definition is_space :: "char \<Rightarrow> bool" where
  "is_space c \<longleftrightarrow>
     c \<in> set [CHR 0x09, CHR 0x0A, CHR 0x0B, CHR 0x0C, CHR 0x0D, CHR 0x1C, CHR 0x1D,
              CHR 0x1E, CHR 0x1F, CHR 0x20, CHR 0x85, CHR 0xA0]"

text \<open>\<open>split_aux cur s\<close>: \<open>cur\<close> is the word being read, \<open>s\<close> the rest of the text.\<close>

fun split_aux :: "string \<Rightarrow> string \<Rightarrow> string list" where
  "split_aux cur [] = (if cur = [] then [] else [cur])"
| "split_aux cur (c # cs) =
     (if is_space c then (if cur = [] then split_aux [] cs else cur # split_aux [] cs)
      else split_aux (cur @ [c]) cs)"

definition py_split :: "string \<Rightarrow> string list" where
  "py_split s = split_aux [] s"

text \<open>\<open>sep.join(parts)\<close>.\<close>

fun py_join :: "string \<Rightarrow> string list \<Rightarrow> string" where
  "py_join sep [] = []"
| "py_join sep [w] = w"
| "py_join sep (w # v # ws) = w @ sep @ py_join sep (v # ws)"

text \<open>\<open>xs[s:e]\<close> for indices \<open>0 \<le> s\<close>, \<open>0 \<le> e\<close>: the slice is clamped to the list.\<close>

definition slice :: "'a list \<Rightarrow> nat \<Rightarrow> nat \<Rightarrow> 'a list" where
  "slice xs s e = take (e - s) (drop s xs)"

text \<open>\<open>s.strip()\<close>.\<close>

definition py_strip :: "string \<Rightarrow> string" where
  "py_strip s = rev (dropWhile is_space (rev (dropWhile is_space s)))"

section \<open>summarize.py: the transcript chunker\<close>

definition CHUNK_WORDS :: nat where
  "CHUNK_WORDS = 8000"

definition OVERLAP_WORDS :: nat where
  "OVERLAP_WORDS = 500"

definition word_count :: "string \<Rightarrow> nat" where
  "word_count text = length (py_split text)"

text \<open>
  The \<open>while\<close> loop of \<open>_chunk_transcript\<close>, with its state \<open>start\<close>, \<open>chunks\<close>. The loop is
  not assumed to end: a run that never leaves the loop has the value \<open>None\<close>.
\<close>

partial_function (option) chunk_loop :: "string list \<Rightarrow> nat \<Rightarrow> string list \<Rightarrow> string list option" where
  "chunk_loop words start chunks =
     (if start < length words then
        (let end_ix = start + CHUNK_WORDS;
             chunks' = chunks @ [py_join '' '' (slice words start end_ix)]
         in if end_ix \<ge> length words then Some chunks'
            else chunk_loop words (end_ix - OVERLAP_WORDS) chunks')
      else Some chunks)"

definition chunk_transcript :: "string \<Rightarrow> string list option" where
  "chunk_transcript transcript = chunk_loop (py_split transcript) 0 []"


text \<open>
  Auxiliary notions used to state and prove the chunking theorems: a well-formed word, the
  window of eight thousand words that starts \<open>i\<close> strides into the word list, and the word
  lists of the chunks with the declared overlap removed from every chunk but the first.
\<close>

definition word_ok :: "string \<Rightarrow> bool" where
  "word_ok w \<longleftrightarrow> w \<noteq> [] \<and> (\<forall>c\<in>set w. \<not> is_space c)"

definition window :: "string list \<Rightarrow> nat \<Rightarrow> string" where
  "window ws i = py_join '' '' (slice ws (i * 7500) (i * 7500 + 8000))"

definition drop_overlaps :: "string list list \<Rightarrow> string list list" where
  "drop_overlaps cs = (case cs of [] \<Rightarrow> [] | c # rest \<Rightarrow> c # map (drop OVERLAP_WORDS) rest)"

section \<open>Exceptions\<close>

text \<open>
  A raised exception is a value. \<open>SystemExit\<close> is what \<open>sys.exit\<close> raises; it derives from
  \<open>BaseException\<close>, so an \<open>except Exception\<close> clause does not catch it.
\<close>

datatype exn =
    SystemExit nat
  | AuthenticationError
  | OpenAIError
  | AttributeError
  | TypeError
  | IndexError
  | OSError
  | RuntimeError
  | ValueError
  | YAMLError

fun is_Exception :: "exn \<Rightarrow> bool" where
  "is_Exception (SystemExit code) = False"
| "is_Exception e = True"

text \<open>\<open>openai.AuthenticationError\<close> is a subclass of \<open>openai.OpenAIError\<close>.\<close>

fun is_OpenAIError :: "exn \<Rightarrow> bool" where
  "is_OpenAIError AuthenticationError = True"
| "is_OpenAIError OpenAIError = True"
| "is_OpenAIError e = False"

section \<open>summarize.py: summarize_transcript\<close>

text \<open>
  The two system prompts are fixed texts; only which of the two is sent matters here.
  Console output (\<open>print\<close>) is not modelled.
\<close>

datatype prompt = SYSTEM_PROMPT | MERGE_SYSTEM_PROMPT

record llm_call =
  system :: prompt
  user :: string
  model :: string

text \<open>
  The chat completion service: given the calls issued so far and the request, it raises an
  exception or answers with a message content, which may be missing (Python \<open>None\<close>).
\<close>

type_synonym backend = "llm_call list \<Rightarrow> llm_call \<Rightarrow> exn + string option"

definition call_llm ::
  "backend \<Rightarrow> prompt \<Rightarrow> string \<Rightarrow> string \<Rightarrow> llm_call list \<Rightarrow> (exn + string) \<times> llm_call list" where
  "call_llm api sys usr mdl calls =
     (let request = \<lparr>system = sys, user = usr, model = mdl\<rparr>; calls' = calls @ [request]
      in case api calls request of
           Inr (Some content) \<Rightarrow> (Inr (py_strip content), calls')
         | Inr None \<Rightarrow> (Inl AttributeError, calls')
         | Inl e \<Rightarrow> (if is_OpenAIError e then (Inl (SystemExit 1), calls') else (Inl e, calls')))"

text \<open>\<open>str(n)\<close> for a natural number.\<close>

fun show_nat :: "nat \<Rightarrow> string" where
  "show_nat n =
     (if n < 10 then [''0123456789'' ! n]
      else show_nat (n div 10) @ [''0123456789'' ! (n mod 10)])"

definition NL :: string where
  "NL = [CHR 0x0A]"

definition context_header :: "string \<Rightarrow> string option \<Rightarrow> string" where
  "context_header title course =
     ''Lecture: '' @ title @
     (case course of
        None \<Rightarrow> []
      | Some c \<Rightarrow> if c \<noteq> [] then NL @ ''Course: '' @ c else [])"

definition chunk_user_msg :: "string \<Rightarrow> nat \<Rightarrow> nat \<Rightarrow> string \<Rightarrow> string" where
  "chunk_user_msg header i n_chunks chunk =
     header @ NL @ ''(Part '' @ show_nat i @ '' of '' @ show_nat n_chunks @ '')'' @ NL @ NL
       @ ''---'' @ NL @ NL @ chunk"

definition merge_user_msg :: "string \<Rightarrow> string list \<Rightarrow> string" where
  "merge_user_msg header partial_summaries =
     header @ NL @ NL @ ''---'' @ NL @ NL @
     py_join (NL @ NL @ ''---'' @ NL @ NL)
       (map (\<lambda>(i, s). ''## Chunk '' @ show_nat i @ NL @ NL @ s) (enumerate 1 partial_summaries))"

text \<open>The loop \<open>for i, chunk in enumerate(chunks, 1)\<close>; a raised exception ends it.\<close>

fun summarize_chunks ::
  "backend \<Rightarrow> string \<Rightarrow> string \<Rightarrow> nat \<Rightarrow> (nat \<times> string) list \<Rightarrow> string list \<Rightarrow> llm_call list
     \<Rightarrow> (exn + string list) \<times> llm_call list" where
  "summarize_chunks api header mdl n_chunks [] partial_summaries calls = (Inr partial_summaries, calls)"
| "summarize_chunks api header mdl n_chunks ((i, chunk) # rest) partial_summaries calls =
     (case call_llm api SYSTEM_PROMPT (chunk_user_msg header i n_chunks chunk) mdl calls of
        (Inl e, calls') \<Rightarrow> (Inl e, calls')
      | (Inr s, calls') \<Rightarrow> summarize_chunks api header mdl n_chunks rest (partial_summaries @ [s]) calls')"

definition summarize_transcript ::
  "backend \<Rightarrow> string \<Rightarrow> string \<Rightarrow> string option \<Rightarrow> string \<Rightarrow> llm_call list
     \<Rightarrow> ((exn + string) \<times> llm_call list) option" where
  "summarize_transcript api transcript title course mdl calls =
     (let header = context_header title course
      in if word_count transcript \<le> 10000 then
           Some (call_llm api SYSTEM_PROMPT (header @ NL @ NL @ ''---'' @ NL @ NL @ transcript) mdl calls)
         else
           (case chunk_transcript transcript of
              None \<Rightarrow> None
            | Some chunks \<Rightarrow>
                Some (case summarize_chunks api header mdl (length chunks) (enumerate 1 chunks) [] calls of
                        (Inl e, calls') \<Rightarrow> (Inl e, calls')
                      | (Inr partial_summaries, calls') \<Rightarrow>
                          call_llm api MERGE_SYSTEM_PROMPT (merge_user_msg header partial_summaries) mdl calls')))"

text \<open>
  The calls that a run over the chunks \<open>cs\<close> issues when no call fails, but for the text of
  the merge request, which depends on the answers.
\<close>

definition chunk_calls :: "string \<Rightarrow> string \<Rightarrow> nat \<Rightarrow> (nat \<times> string) list \<Rightarrow> llm_call list" where
  "chunk_calls header mdl n_chunks ics =
     map (\<lambda>(i, c). \<lparr>system = SYSTEM_PROMPT, user = chunk_user_msg header i n_chunks c, model = mdl\<rparr>) ics"

text \<open>A call is answered when the service returns a message content.\<close>

definition answered :: "backend \<Rightarrow> llm_call list \<Rightarrow> llm_call \<Rightarrow> bool" where
  "answered api calls request = (case api calls request of Inr (Some content) \<Rightarrow> True | _ \<Rightarrow> False)"

text \<open>Two services for concrete runs: one that is down, one that always answers.\<close>

definition backend_down :: backend where
  "backend_down calls request = Inl OpenAIError"

definition backend_up :: backend where
  "backend_up calls request = Inr (Some ''## Notes'')"


section \<open>app/transcribe.py: splitting an oversized audio file\<close>

text \<open>
  The file system, as far as the transcriber touches it: the files, each named by its
  directory and its name, and the directories.
\<close>

record fs =
  files :: "(string \<times> string) set"
  dirs :: "string set"

text \<open>
  An audio file as the operating system and the decoder present it: its path, the suffix
  of its name, its size in bytes (\<open>stat().st_size\<close>) and the length in milliseconds of the
  decoded audio (\<open>len(audio)\<close>).
\<close>

record audio_file =
  audio_path :: "string \<times> string"
  file_suffix :: string
  st_size :: nat
  duration_ms :: nat

text \<open>
  \<open>file_size_mb = st_size / (1024 * 1024)\<close>. Python computes it in double precision; the
  model computes it exactly. The division by a power of two is exact for every size below
  \<open>2 ^ 53\<close> bytes, and rounding the quotient by 24 cannot reach the next integer for a file
  below several petabytes.
\<close>

definition file_size_mb :: "audio_file \<Rightarrow> rat" where
  "file_size_mb a = of_nat (st_size a) / (1024 * 1024)"

definition max_size_mb :: rat where
  "max_size_mb = 24"

record audio_chunk =
  chunk_path :: "string \<times> string"
  chunk_start_ms :: nat
  chunk_end_ms :: nat

text \<open>\<open>f"chunk_{i:03d}{suffix}"\<close>: the index in decimal, padded with zeros to three digits.\<close>

definition chunk_name :: "nat \<Rightarrow> string \<Rightarrow> string" where
  "chunk_name i sfx =
     ''chunk_'' @ replicate (3 - length (show_nat i)) (CHR ''0'') @ show_nat i @ sfx"

text \<open>
  \<open>split_audio\<close>, in the run where decoding the file, \<open>tempfile.mkdtemp\<close> and every export
  succeed. \<open>tmp_dir\<close> is the directory that \<open>mkdtemp\<close> creates. Each chunk is the slice
  \<open>audio[start_ms:end_ms]\<close>, exported to its own file. The runs in which one of these
  operations raises are \<open>split_audio_run\<close> below.
\<close>

definition split_audio :: "string \<Rightarrow> audio_file \<Rightarrow> fs \<Rightarrow> audio_chunk list \<times> fs" where
  "split_audio tmp_dir a s =
     (let num_chunks = nat \<lfloor>file_size_mb a / max_size_mb\<rfloor> + 1;
          chunk_duration_ms = duration_ms a div num_chunks;
          chunks =
            map (\<lambda>i. let start_ms = i * chunk_duration_ms;
                          end_ms = (if i < num_chunks - 1 then start_ms + chunk_duration_ms
                                    else duration_ms a)
                      in \<lparr>chunk_path = (tmp_dir, chunk_name i (file_suffix a)),
                          chunk_start_ms = start_ms, chunk_end_ms = end_ms\<rparr>)
              [0..<num_chunks]
      in (chunks,
          s\<lparr>dirs := insert tmp_dir (dirs s), files := files s \<union> set (map chunk_path chunks)\<rparr>))"

text \<open>
  What can go wrong inside \<open>split_audio\<close>: \<open>AudioSegment.from_file\<close> raises, before anything
  is created; \<open>mkdtemp\<close> raises, and no directory is created; or the export of chunk number
  \<open>i\<close> raises, when the directory and the files of the chunks before it are on disk. The
  flag tells whether the failed export has left its own file behind as well.
\<close>

datatype split_fault = DecodeFails exn | MkdtempFails exn | ExportFails nat exn bool

definition split_audio_run ::
  "split_fault option \<Rightarrow> string \<Rightarrow> audio_file \<Rightarrow> fs \<Rightarrow> (exn + audio_chunk list) \<times> fs" where
  "split_audio_run fault tmp_dir a s =
     (case fault of
        None \<Rightarrow> (Inr (fst (split_audio tmp_dir a s)), snd (split_audio tmp_dir a s))
      | Some (DecodeFails e) \<Rightarrow> (Inl e, s)
      | Some (MkdtempFails e) \<Rightarrow> (Inl e, s)
      | Some (ExportFails i e left) \<Rightarrow>
          (let chunks = fst (split_audio tmp_dir a s)
           in if i < length chunks then
                (Inl e,
                 s\<lparr>dirs := insert tmp_dir (dirs s),
                    files := files s \<union> set (map chunk_path (take (if left then Suc i else i) chunks))\<rparr>)
              else (Inr chunks, snd (split_audio tmp_dir a s))))"

text \<open>The transcription service: it answers with a text or raises.\<close>

type_synonym whisper = "string \<times> string \<Rightarrow> exn + string"

definition transcribe_single :: "whisper \<Rightarrow> string \<times> string \<Rightarrow> exn + string" where
  "transcribe_single api p =
     (case api p of
        Inr response \<Rightarrow> Inr response
      | Inl e \<Rightarrow> if is_OpenAIError e then Inl (SystemExit 1) else Inl e)"

fun transcribe_chunks :: "whisper \<Rightarrow> (string \<times> string) list \<Rightarrow> string list \<Rightarrow> exn + string list" where
  "transcribe_chunks api [] parts = Inr parts"
| "transcribe_chunks api (p # ps) parts =
     (case transcribe_single api p of
        Inl e \<Rightarrow> Inl e
      | Inr text \<Rightarrow> transcribe_chunks api ps (parts @ [text]))"

text \<open>\<open>Path.unlink(missing_ok=True)\<close> and \<open>Path.rmdir()\<close>.\<close>

definition unlink :: "string \<times> string \<Rightarrow> fs \<Rightarrow> fs" where
  "unlink p s = s\<lparr>files := files s - {p}\<rparr>"

definition rmdir :: "string \<Rightarrow> fs \<Rightarrow> exn + fs" where
  "rmdir d s =
     (if d \<notin> dirs s \<or> d \<in> fst ` files s then Inl OSError
      else Inr (s\<lparr>dirs := dirs s - {d}\<rparr>))"

text \<open>
  \<open>_transcribe_api\<close>. The call of \<open>split_audio\<close> stands before the \<open>try\<close> statement: when it
  raises, nothing is cleaned up. The \<open>finally\<close> block runs whether the loop returned or
  raised; an exception raised inside it replaces the outcome of the \<open>try\<close> block.
\<close>

definition transcribe_api ::
  "whisper \<Rightarrow> split_fault option \<Rightarrow> string \<Rightarrow> audio_file \<Rightarrow> fs \<Rightarrow> (exn + string) \<times> fs" where
  "transcribe_api api fault tmp_dir a s =
     (if file_size_mb a \<le> 24 then (transcribe_single api (audio_path a), s)
      else
        (case split_audio_run fault tmp_dir a s of
           (Inl e, s1) \<Rightarrow> (Inl e, s1)
         | (Inr chunks, s1) \<Rightarrow>
             (let chunk_paths = map chunk_path chunks
              in case chunk_paths of
                   [] \<Rightarrow> (Inl IndexError, s1)
                 | first # others \<Rightarrow>
                     (let tmp = fst first;
                          outcome = (case transcribe_chunks api chunk_paths [] of
                                       Inl e \<Rightarrow> Inl e
                                     | Inr parts \<Rightarrow> Inr (py_join '' '' parts));
                          s2 = fold unlink chunk_paths s1
                      in case rmdir tmp s2 of
                           Inl e \<Rightarrow> (Inl e, s2)
                         | Inr s3 \<Rightarrow> (outcome, s3)))))"

text \<open>Sample recordings of 48 MB and of 30 MB, and a file system with no files.\<close>

definition lecture_48mb :: audio_file where
  "lecture_48mb = \<lparr>audio_path = (''/rec'', ''lecture.mp3''), file_suffix = ''.mp3'',
                     st_size = 50331648, duration_ms = 3600000\<rparr>"

definition lecture_30mb :: audio_file where
  "lecture_30mb = \<lparr>audio_path = (''/rec'', ''lecture.mp3''), file_suffix = ''.mp3'',
                     st_size = 31457280, duration_ms = 600000\<rparr>"

definition no_files :: fs where
  "no_files = \<lparr>files = {}, dirs = {}\<rparr>"

text \<open>A transcription service that fails on the second chunk of an MP3 file.\<close>

definition flaky_whisper :: whisper where
  "flaky_whisper p = (if snd p = ''chunk_001.mp3'' then Inl OpenAIError else Inr ''some words'')"

section \<open>app/state.py: the recording marker\<close>

text \<open>
  The marker file is absent (\<open>None\<close>) or holds a text. What \<open>yaml.safe_load\<close> makes of a
  text is a parameter: it raises or returns a YAML value.
\<close>

datatype yaml =
    YNull
  | YInt int
  | YStr string
  | YMap "(string \<times> yaml) list"
  | YSeq "yaml list"

type_synonym loader = "string \<Rightarrow> exn + yaml"

text \<open>The outcome of \<open>os.kill(pid, 0)\<close>.\<close>

datatype probe = Delivered | NoSuchProcess | NotPermitted | ProbeFails exn

definition clear_state :: "string option \<Rightarrow> string option" where
  "clear_state marker = None"

text \<open>\<open>get_recording_info\<close>; Python's \<open>None\<close> is \<open>YNull\<close>.\<close>

definition get_recording_info :: "loader \<Rightarrow> string option \<Rightarrow> exn + yaml" where
  "get_recording_info safe_load marker =
     (case marker of
        None \<Rightarrow> Inr YNull
      | Some content \<Rightarrow>
          (case safe_load content of
             Inr v \<Rightarrow> Inr v
           | Inl e \<Rightarrow> if is_Exception e then Inr YNull else Inl e))"

text \<open>\<open>info.get("pid")\<close>: only a mapping has \<open>get\<close>.\<close>

definition yaml_get :: "yaml \<Rightarrow> string \<Rightarrow> exn + yaml" where
  "yaml_get info key =
     (case info of
        YMap kvs \<Rightarrow> (case map_of kvs key of None \<Rightarrow> Inr YNull | Some v \<Rightarrow> Inr v)
      | _ \<Rightarrow> Inl AttributeError)"

fun is_mapping :: "yaml \<Rightarrow> bool" where
  "is_mapping (YMap kvs) = True"
| "is_mapping v = False"

definition is_recording ::
  "loader \<Rightarrow> (int \<Rightarrow> probe) \<Rightarrow> string option \<Rightarrow> (exn + bool) \<times> string option" where
  "is_recording safe_load kill0 marker =
     (if marker = None then (Inr False, marker)
      else
        (case get_recording_info safe_load marker of
           Inl e \<Rightarrow> (Inl e, marker)
         | Inr YNull \<Rightarrow> (Inr False, marker)
         | Inr info \<Rightarrow>
             (case yaml_get info ''pid'' of
                Inl e \<Rightarrow> (Inl e, marker)
              | Inr YNull \<Rightarrow> (Inr False, clear_state marker)
              | Inr (YInt pid) \<Rightarrow>
                  (case kill0 pid of
                     Delivered \<Rightarrow> (Inr True, marker)
                   | NoSuchProcess \<Rightarrow> (Inr False, clear_state marker)
                   | NotPermitted \<Rightarrow> (Inr True, marker)
                   | ProbeFails e \<Rightarrow> (Inl e, marker))
              | Inr v \<Rightarrow> (Inl TypeError, marker))))"

section \<open>app/cli.py: the background recording run\<close>

datatype notification = MicError | NotesReady string | PipelineFailed

record world =
  notifications :: "notification list"
  marker :: "string option"
  wav_files :: "(string \<times> string) set"
  llm_calls :: "llm_call list"

record config =
  archive_dir :: "string option"
  summarization_model :: "string option"

text \<open>
  The collaborators of one run, by their outcomes: starting and stopping the recorder
  (stopping writes the WAV file and returns its path), loading the configuration,
  transcribing, writing the notes, and moving the WAV file into the archive directory.
\<close>

record env =
  recorder_start :: "exn + unit"
  recorder_stop :: "exn + string \<times> string"
  load_config :: "exn + config"
  transcribe_audio :: "string \<times> string \<Rightarrow> config \<Rightarrow> exn + string"
  write_notes :: "string \<Rightarrow> string \<Rightarrow> exn + unit"
  archive_move :: "exn + unit"

definition send_notification :: "notification \<Rightarrow> world \<Rightarrow> world" where
  "send_notification n w = w\<lparr>notifications := notifications w @ [n]\<rparr>"

definition archive_wav :: "env \<Rightarrow> string \<times> string \<Rightarrow> config \<Rightarrow> world \<Rightarrow> (exn + unit) \<times> world" where
  "archive_wav E wav_path cfg w =
     (case archive_dir cfg of
        Some d \<Rightarrow>
          (if d \<noteq> [] then
             (case archive_move E of
                Inl e \<Rightarrow> (Inl e, w)
              | Inr u \<Rightarrow> (Inr (), w\<lparr>wav_files := insert (d, snd wav_path) (wav_files w - {wav_path})\<rparr>))
           else (Inr (), w\<lparr>wav_files := wav_files w - {wav_path}\<rparr>))
      | None \<Rightarrow> (Inr (), w\<lparr>wav_files := wav_files w - {wav_path}\<rparr>))"

text \<open>The body of the \<open>try\<close> block of \<open>record_internal\<close>.\<close>

definition pipeline ::
  "env \<Rightarrow> backend \<Rightarrow> string \<Rightarrow> string \<Rightarrow> world \<Rightarrow> ((exn + unit) \<times> world) option" where
  "pipeline E api course title w =
     (case recorder_stop E of
        Inl e \<Rightarrow> Some (Inl e, w)
      | Inr wav_path \<Rightarrow>
          (let w1 = w\<lparr>wav_files := insert wav_path (wav_files w)\<rparr>
           in case load_config E of
                Inl e \<Rightarrow> Some (Inl e, w1)
              | Inr cfg \<Rightarrow>
                  (let mdl = (case summarization_model cfg of None \<Rightarrow> ''gpt-4o-mini'' | Some m \<Rightarrow> m)
                   in case transcribe_audio E wav_path cfg of
                        Inl e \<Rightarrow> Some (Inl e, w1)
                      | Inr transcript \<Rightarrow>
                          (case summarize_transcript api transcript title (Some course) mdl (llm_calls w1) of
                             None \<Rightarrow> None
                           | Some (Inl e, calls') \<Rightarrow> Some (Inl e, w1\<lparr>llm_calls := calls'\<rparr>)
                           | Some (Inr summary, calls') \<Rightarrow>
                               (let w2 = w1\<lparr>llm_calls := calls'\<rparr>
                                in case write_notes E summary transcript of
                                     Inl e \<Rightarrow> Some (Inl e, w2)
                                   | Inr u \<Rightarrow>
                                       (case archive_wav E wav_path cfg w2 of
                                          (Inl e, w3) \<Rightarrow> Some (Inl e, w3)
                                        | (Inr v, w3) \<Rightarrow>
                                            Some (Inr (), send_notification (NotesReady course) w3)))))))"

text \<open>
  \<open>record_internal\<close>, from the start of the recorder to the end of the run. The wait for
  the stop signal is not modelled. The result \<open>Inl (SystemExit c)\<close> is the process leaving
  with status \<open>c\<close>.
\<close>

definition record_internal ::
  "env \<Rightarrow> backend \<Rightarrow> string \<Rightarrow> string \<Rightarrow> world \<Rightarrow> ((exn + unit) \<times> world) option" where
  "record_internal E api course title w =
     (case recorder_start E of
        Inl e \<Rightarrow>
          (if is_Exception e then
             Some (Inl (SystemExit 1), (send_notification MicError w)\<lparr>marker := clear_state (marker w)\<rparr>)
           else Some (Inl e, w))
      | Inr u \<Rightarrow>
          (case pipeline E api course title w of
             None \<Rightarrow> None
           | Some (Inl e, w') \<Rightarrow>
               (if is_Exception e then
                  Some (Inl (SystemExit 1),
                        (send_notification PipelineFailed w')\<lparr>marker := clear_state (marker w')\<rparr>)
                else Some (Inl e, w'))
           | Some (Inr v, w') \<Rightarrow> Some (Inr (), w'\<lparr>marker := clear_state (marker w')\<rparr>)))"


text \<open>
  A run in which every collaborator succeeds, started with the marker of process 4242 in
  place.
\<close>

definition sample_env :: env where
  "sample_env = \<lparr>recorder_start = Inr (), recorder_stop = Inr (''/tmp'', ''lecture_1.wav''),
                   load_config = Inr \<lparr>archive_dir = None, summarization_model = None\<rparr>,
                   transcribe_audio = (\<lambda>p cfg. Inr ''hello world''),
                   write_notes = (\<lambda>summary transcript. Inr ()), archive_move = Inr ()\<rparr>"

definition sample_world :: world where
  "sample_world = \<lparr>notifications = [], marker = Some ''pid: 4242'', wav_files = {}, llm_calls = []\<rparr>"

section \<open>Properties of the transcript chunker\<close>

lemma is_space_blank: "is_space (CHR '' '')"
  by (simp add: is_space_def)

lemma split_aux_nonspace:
  "\<forall>c\<in>set w. \<not> is_space c \<Longrightarrow> split_aux cur (w @ rest) = split_aux (cur @ w) rest"
  by (induction w arbitrary: cur) simp_all

lemma split_aux_words:
  "\<forall>c\<in>set cur. \<not> is_space c \<Longrightarrow> w \<in> set (split_aux cur s) \<Longrightarrow> word_ok w"
proof (induction s arbitrary: cur)
  case Nil
  then show ?case by (auto simp: word_ok_def split: if_splits)
next
  case (Cons c cs)
  show ?case
  proof (cases "is_space c")
    case True
    with Cons.prems have "w = cur \<and> cur \<noteq> [] \<or> w \<in> set (split_aux [] cs)"
      by (auto split: if_splits)
    then show ?thesis
      using Cons.IH [of "[]"] Cons.prems(1) by (auto simp: word_ok_def)
  next
    case False
    with Cons.prems have "w \<in> set (split_aux (cur @ [c]) cs)" by simp
    moreover have "\<forall>d\<in>set (cur @ [c]). \<not> is_space d" using False Cons.prems(1) by simp
    ultimately show ?thesis using Cons.IH by blast
  qed
qed

lemma py_split_words: "w \<in> set (py_split s) \<Longrightarrow> word_ok w"
  unfolding py_split_def using split_aux_words [of "[]"] by simp

lemma split_join:
  "\<forall>w\<in>set ws. word_ok w \<Longrightarrow> py_split (py_join '' '' ws) = ws"
proof (induction "'' ''" ws rule: py_join.induct)
  case 1
  then show ?case by (simp add: py_split_def)
next
  case (2 w)
  then have "split_aux [] (w @ []) = split_aux ([] @ w) []"
    by (intro split_aux_nonspace) (simp add: word_ok_def)
  with 2 show ?case by (simp add: py_split_def word_ok_def)
next
  case (3 w v ws)
  have "split_aux [] (w @ '' '' @ py_join '' '' (v # ws)) = split_aux ([] @ w) ('' '' @ py_join '' '' (v # ws))"
    using 3 by (intro split_aux_nonspace) (simp add: word_ok_def)
  also have "\<dots> = w # split_aux [] (py_join '' '' (v # ws))"
    using 3 by (simp add: is_space_blank word_ok_def)
  finally show ?case using 3 by (simp add: py_split_def)
qed

lemma slice_words: "\<forall>w\<in>set ws. word_ok w \<Longrightarrow> \<forall>w\<in>set (slice ws s e). word_ok w"
  by (auto simp: slice_def dest: in_set_takeD in_set_dropD)

lemma chunk_loop_closed:
  "\<exists>k. chunk_loop ws (i * 7500) acc = Some (acc @ map (window ws) [i..<i + k])
     \<and> (length ws \<le> i * 7500 \<longrightarrow> k = 0)
     \<and> (i * 7500 < length ws \<longrightarrow> 0 < k \<and> length ws \<le> (i + k - 1) * 7500 + 8000
            \<and> (k = 1 \<or> (i + k - 1) * 7500 + 500 < length ws))"
proof (induction "length ws - i * 7500" arbitrary: i acc rule: less_induct)
  case less
  show ?case
  proof (cases "i * 7500 < length ws")
    case False
    then have "chunk_loop ws (i * 7500) acc = Some acc"
      by (subst chunk_loop.simps) simp
    with False show ?thesis by (intro exI [of _ 0]) simp
  next
    case True
    show ?thesis
    proof (cases "length ws \<le> i * 7500 + 8000")
      case last: True
      have "chunk_loop ws (i * 7500) acc = Some (acc @ [window ws i])"
        using True last
        by (subst chunk_loop.simps) (simp add: CHUNK_WORDS_def window_def Let_def)
      with True last show ?thesis by (intro exI [of _ 1]) simp
    next
      case more: False
      have step: "chunk_loop ws (i * 7500) acc = chunk_loop ws (Suc i * 7500) (acc @ [window ws i])"
        using True more
        by (subst chunk_loop.simps)
           (simp add: CHUNK_WORDS_def OVERLAP_WORDS_def window_def Let_def)
      have "length ws - Suc i * 7500 < length ws - i * 7500" using True by simp
      from less [OF this, of "acc @ [window ws i]"]
      obtain k where k: "chunk_loop ws (Suc i * 7500) (acc @ [window ws i])
            = Some ((acc @ [window ws i]) @ map (window ws) [Suc i..<Suc i + k])"
        "Suc i * 7500 < length ws \<longrightarrow> 0 < k \<and> length ws \<le> (Suc i + k - 1) * 7500 + 8000
            \<and> (k = 1 \<or> (Suc i + k - 1) * 7500 + 500 < length ws)"
        by blast
      have lt: "Suc i * 7500 < length ws" using more by simp
      have "[i..<i + Suc k] = i # [Suc i..<Suc i + k]"
        by (simp add: upt_conv_Cons)
      then have "chunk_loop ws (i * 7500) acc = Some (acc @ map (window ws) [i..<i + Suc k])"
        using step k(1) by simp
      moreover have "length ws \<le> (i + Suc k - 1) * 7500 + 8000 \<and> (i + Suc k - 1) * 7500 + 500 < length ws"
        using k(2) lt more by auto
      ultimately show ?thesis using True by (intro exI [of _ "Suc k"]) simp
    qed
  qed
qed

lemma chunk_transcript_closed:
  "\<exists>k. chunk_transcript t = Some (map (window (py_split t)) [0..<k])
     \<and> (py_split t = [] \<longrightarrow> k = 0)
     \<and> (py_split t \<noteq> [] \<longrightarrow> 0 < k \<and> length (py_split t) \<le> (k - 1) * 7500 + 8000
            \<and> (k = 1 \<or> (k - 1) * 7500 + 500 < length (py_split t)))"
  using chunk_loop_closed [of "py_split t" 0 "[]"] by (simp add: chunk_transcript_def)

lemma split_window: "py_split (window (py_split t) i) = slice (py_split t) (i * 7500) (i * 7500 + 8000)"
  unfolding window_def
  by (intro split_join slice_words) (simp add: py_split_words)

lemma concat_pieces:
  "concat (map (\<lambda>j. take m (drop (a + j * m) ws)) [0..<r]) = take (r * m) (drop a ws)"
proof (induction r)
  case 0
  then show ?case by simp
next
  case (Suc r)
  have a: "take (r * m + m) (drop a ws) = take (r * m) (drop a ws) @ take m (drop (r * m) (drop a ws))"
    by (rule take_add)
  have b: "Suc r * m = r * m + m" by simp
  show ?case unfolding b a using Suc by (simp add: add.commute)
qed

lemma concat_windows:
  assumes "0 < k" "length ws \<le> (k - 1) * 7500 + 8000"
  shows "concat (drop_overlaps (map (\<lambda>i. slice ws (i * 7500) (i * 7500 + 8000)) [0..<k])) = ws"
proof -
  obtain r where k: "k = Suc r" using assms(1) by (cases k) auto
  have upt: "[0..<Suc r] = 0 # map Suc [0..<r]"
    by (simp add: upt_conv_Cons map_Suc_upt del: upt_Suc)
  have piece: "drop 500 (take 8000 (drop (7500 + j * 7500) ws)) = take 7500 (drop (8000 + j * 7500) ws)" for j
    by (simp add: drop_take)
  have "concat (drop_overlaps (map (\<lambda>i. slice ws (i * 7500) (i * 7500 + 8000)) [0..<k]))
      = take 8000 ws @ concat (map (\<lambda>j. take 7500 (drop (8000 + j * 7500) ws)) [0..<r])"
    unfolding k upt
    by (simp add: drop_overlaps_def OVERLAP_WORDS_def o_def slice_def piece del: upt_Suc)
  also have "\<dots> = take 8000 ws @ take (r * 7500) (drop 8000 ws)"
    by (simp only: concat_pieces)
  also have "\<dots> = take (8000 + r * 7500) ws"
    by (simp add: take_add)
  also have "\<dots> = ws" using assms(2) k by simp
  finally show ?thesis .
qed

lemma slice_clamp: "slice xs s (min e (length xs)) = slice xs s e"
  by (cases "e \<le> length xs") (simp_all add: slice_def min_def)

lemma slice_nonempty: "s < length xs \<Longrightarrow> s < e \<Longrightarrow> slice xs s e \<noteq> []"
  by (simp add: slice_def)

lemma py_split_Nil: "py_split [] = []"
  by (simp add: py_split_def)

lemma window_nonempty:
  assumes "i * 7500 < length (py_split t)"
  shows "py_split (window (py_split t) i) \<noteq> []" "window (py_split t) i \<noteq> []"
proof -
  show a: "py_split (window (py_split t) i) \<noteq> []"
    using assms by (simp add: split_window slice_nonempty)
  show "window (py_split t) i \<noteq> []"
    using a py_split_Nil by force
qed

lemma split_aux_rep: "split_aux [] (concat (replicate n ''a '')) = replicate n ''a''"
  by (induction n) (simp_all add: is_space_def)

lemma py_split_rep: "py_split (concat (replicate n ''a '')) = replicate n ''a''"
  by (simp add: py_split_def split_aux_rep)

text \<open>
  Claim C9. The chunking loop ends for every transcript. The window is wider than the
  overlap (8000 against 500 words), so every iteration moves the start of the window
  forward by exactly 7500 words: the chunk of iteration \<open>i\<close> starts at word \<open>7500 * i\<close>, inside
  the transcript. The loop therefore runs at most \<open>length words div 7500 + 1\<close> times and
  returns a finite list of chunks, none of them empty; a transcript that is not empty, that
  is, one with at least one word, gets at least one chunk.
\<close>

theorem chunk_loop_terminates:
  "\<exists>cs. chunk_transcript t = Some cs
     \<and> OVERLAP_WORDS < CHUNK_WORDS \<and> CHUNK_WORDS - OVERLAP_WORDS = 7500
     \<and> (\<forall>i<length cs. i * 7500 < length (py_split t)
            \<and> cs ! i = py_join '' '' (slice (py_split t) (i * 7500) (i * 7500 + CHUNK_WORDS)))
     \<and> (\<forall>c\<in>set cs. c \<noteq> [] \<and> py_split c \<noteq> [])
     \<and> length cs \<le> length (py_split t) div 7500 + 1
     \<and> (py_split t \<noteq> [] \<longrightarrow> cs \<noteq> [])"
proof -
  define ws where "ws = py_split t"
  obtain k where k: "chunk_transcript t = Some (map (window ws) [0..<k])"
    "ws = [] \<longrightarrow> k = 0"
    "ws \<noteq> [] \<longrightarrow> 0 < k \<and> length ws \<le> (k - 1) * 7500 + 8000
         \<and> (k = 1 \<or> (k - 1) * 7500 + 500 < length ws)"
    using chunk_transcript_closed [of t] unfolding ws_def by blast
  have start: "i * 7500 < length ws" if "i < k" for i
    using that k(2,3) by (cases "ws = []") auto
  have "(k - 1) * 7500 \<le> length ws"
    using k(2,3) by (cases "ws = []") auto
  then have "k - 1 \<le> length ws div 7500"
    by (simp add: less_eq_div_iff_mult_less_eq)
  then have len: "k \<le> length ws div 7500 + 1" by simp
  have nonempty: "c \<noteq> [] \<and> py_split c \<noteq> []" if "c \<in> set (map (window ws) [0..<k])" for c
  proof -
    from that obtain i where "i < k" "c = window ws i" by auto
    then show ?thesis using start [of i] window_nonempty [of i t] by (simp add: ws_def)
  qed
  have "\<forall>i<length (map (window ws) [0..<k]). i * 7500 < length ws
          \<and> map (window ws) [0..<k] ! i = py_join '' '' (slice ws (i * 7500) (i * 7500 + CHUNK_WORDS))"
    using start by (simp add: window_def CHUNK_WORDS_def)
  moreover have "ws \<noteq> [] \<longrightarrow> map (window ws) [0..<k] \<noteq> []"
    using k(3) by auto
  ultimately show ?thesis
    using k(1) len nonempty unfolding ws_def [symmetric]
    by (intro exI [of _ "map (window ws) [0..<k]"])
       (simp add: CHUNK_WORDS_def OVERLAP_WORDS_def)
qed

theorem chunk_loop_terminates_witness:
  "chunk_transcript ''a b c'' = Some [''a b c'']"
proof -
  have ws: "py_split ''a b c'' = [''a'', ''b'', ''c'']"
    by (simp add: py_split_def is_space_def)
  from chunk_loop_terminates [of "''a b c''"] obtain cs where
    run: "chunk_transcript ''a b c'' = Some cs"
    and each: "\<forall>i<length cs. cs ! i = py_join '' '' (slice (py_split ''a b c'') (i * 7500) (i * 7500 + CHUNK_WORDS))"
    and len: "length cs \<le> length (py_split ''a b c'') div 7500 + 1"
    and ne: "py_split ''a b c'' \<noteq> [] \<longrightarrow> cs \<noteq> []"
    by blast
  from len ne have l: "length cs = 1" by (cases cs) (simp_all add: ws)
  with each have "cs ! 0 = ''a b c''" by (simp add: ws slice_def CHUNK_WORDS_def)
  with l have "cs = [''a b c'']" by (cases cs) simp_all
  with run show ?thesis by simp
qed

text \<open>
  Claim C4. The chunks of a transcript are the word ranges \<open>words[start:end]\<close> of a list of
  spans in transcript order: the first span starts at word 0, every span but the last is
  \<open>CHUNK_WORDS\<close> = 8000 words wide, the span after span \<open>i\<close> starts at the end of span \<open>i\<close>
  minus \<open>OVERLAP_WORDS\<close> = 500, and the last span ends at the word count of the transcript.
\<close>

theorem chunk_spans:
  "\<exists>cs spans. chunk_transcript t = Some cs \<and> length spans = length cs
     \<and> (\<forall>i<length spans.
            cs ! i = py_join '' '' (slice (py_split t) (fst (spans ! i)) (snd (spans ! i)))
          \<and> fst (spans ! i) < snd (spans ! i)
          \<and> snd (spans ! i) \<le> length (py_split t)
          \<and> snd (spans ! i) \<le> fst (spans ! i) + CHUNK_WORDS)
     \<and> (\<forall>i. Suc i < length spans \<longrightarrow>
            snd (spans ! i) = fst (spans ! i) + CHUNK_WORDS
          \<and> fst (spans ! Suc i) = snd (spans ! i) - OVERLAP_WORDS
          \<and> fst (spans ! i) < fst (spans ! Suc i))
     \<and> (if spans = [] then py_split t = []
         else fst (hd spans) = 0 \<and> snd (last spans) = length (py_split t))"
proof -
  define ws where "ws = py_split t"
  define n where "n = length ws"
  obtain k where k: "chunk_transcript t = Some (map (window ws) [0..<k])"
    "ws = [] \<longrightarrow> k = 0"
    "ws \<noteq> [] \<longrightarrow> 0 < k \<and> n \<le> (k - 1) * 7500 + 8000 \<and> (k = 1 \<or> (k - 1) * 7500 + 500 < n)"
    using chunk_transcript_closed [of t] unfolding ws_def n_def by blast
  define cs where "cs = map (window ws) [0..<k]"
  have run: "chunk_transcript t = Some cs" using k(1) by (simp add: cs_def)
  define spans where "spans = map (\<lambda>i. (i * 7500, min (i * 7500 + 8000) n)) [0..<k]"
  have len: "length spans = k" by (simp add: spans_def)
  have len_cs: "length spans = length cs" by (simp add: spans_def cs_def)
  have nth: "spans ! i = (i * 7500, min (i * 7500 + 8000) n)" if "i < k" for i
    using that by (simp add: spans_def)
  have start: "i * 7500 < n" if "i < k" for i
    using that k(2,3) by (cases "ws = []") (auto simp: n_def)
  have inner: "i * 7500 + 8000 < n" if "Suc i < k" for i
    using that k(2,3) by (cases "ws = []") (auto simp: n_def)
  have each: "\<forall>i<length spans.
            cs ! i = py_join '' '' (slice ws (fst (spans ! i)) (snd (spans ! i)))
          \<and> fst (spans ! i) < snd (spans ! i)
          \<and> snd (spans ! i) \<le> n
          \<and> snd (spans ! i) \<le> fst (spans ! i) + CHUNK_WORDS"
  proof (intro allI impI)
    fix i assume "i < length spans"
    then have i: "i < k" by (simp add: len)
    have "slice ws (i * 7500) (min (i * 7500 + 8000) n) = slice ws (i * 7500) (i * 7500 + 8000)"
      unfolding n_def by (rule slice_clamp)
    then show "cs ! i = py_join '' '' (slice ws (fst (spans ! i)) (snd (spans ! i)))
          \<and> fst (spans ! i) < snd (spans ! i)
          \<and> snd (spans ! i) \<le> n
          \<and> snd (spans ! i) \<le> fst (spans ! i) + CHUNK_WORDS"
      using i start [OF i] by (simp add: nth cs_def window_def CHUNK_WORDS_def)
  qed
  have consecutive: "\<forall>i. Suc i < length spans \<longrightarrow>
            snd (spans ! i) = fst (spans ! i) + CHUNK_WORDS
          \<and> fst (spans ! Suc i) = snd (spans ! i) - OVERLAP_WORDS
          \<and> fst (spans ! i) < fst (spans ! Suc i)"
  proof (intro allI impI)
    fix i assume "Suc i < length spans"
    then have i: "Suc i < k" by (simp add: len)
    then have "i < k" by simp
    then show "snd (spans ! i) = fst (spans ! i) + CHUNK_WORDS
          \<and> fst (spans ! Suc i) = snd (spans ! i) - OVERLAP_WORDS
          \<and> fst (spans ! i) < fst (spans ! Suc i)"
      using i inner [OF i] by (simp add: nth CHUNK_WORDS_def OVERLAP_WORDS_def)
  qed
  have ends: "if spans = [] then ws = [] else fst (hd spans) = 0 \<and> snd (last spans) = n"
  proof (cases "k = 0")
    case True
    then show ?thesis using k(3) by (auto simp: spans_def)
  next
    case False
    then have ne: "spans \<noteq> []" using len by auto
    have "hd spans = spans ! 0" using ne by (simp add: hd_conv_nth)
    moreover have "last spans = spans ! (k - 1)" using ne len by (simp add: last_conv_nth)
    moreover have "n \<le> (k - 1) * 7500 + 8000" using False k(2,3) by auto
    ultimately show ?thesis using ne False by (simp add: nth)
  qed
  show ?thesis
    unfolding ws_def [symmetric] n_def [symmetric]
    using run len_cs each consecutive ends by blast
qed

theorem chunk_spans_witness:
  "chunk_transcript (concat (replicate 8001 ''a ''))
     = Some [py_join '' '' (replicate 8000 ''a''), py_join '' '' (replicate 501 ''a'')]"
proof -
  define T where "T = concat (replicate 8001 ''a '')"
  have ws: "py_split T = replicate 8001 ''a''"
    unfolding T_def by (rule py_split_rep)
  from chunk_spans [of T] obtain cs spans where
    run: "chunk_transcript T = Some cs" and len: "length spans = length cs"
    and each: "\<And>i. i < length spans \<Longrightarrow>
            cs ! i = py_join '' '' (slice (py_split T) (fst (spans ! i)) (snd (spans ! i)))
          \<and> snd (spans ! i) \<le> length (py_split T)
          \<and> snd (spans ! i) \<le> fst (spans ! i) + CHUNK_WORDS"
    and consec: "\<And>i. Suc i < length spans \<Longrightarrow>
            snd (spans ! i) = fst (spans ! i) + CHUNK_WORDS
          \<and> fst (spans ! Suc i) = snd (spans ! i) - OVERLAP_WORDS"
    and ends: "if spans = [] then py_split T = []
         else fst (hd spans) = 0 \<and> snd (last spans) = length (py_split T)"
    by blast
  from ends have ne: "spans \<noteq> []" and h: "fst (spans ! 0) = 0"
    and l: "snd (spans ! (length spans - 1)) = 8001"
    by (auto simp: ws hd_conv_nth last_conv_nth split: if_splits)
  have "length spans \<noteq> 1"
  proof
    assume one: "length spans = 1"
    with each [of 0] h have "snd (spans ! 0) \<le> 8000" by (simp add: CHUNK_WORDS_def)
    with l one show False by simp
  qed
  moreover have "\<not> 3 \<le> length spans"
  proof
    assume three: "3 \<le> length spans"
    with consec [of 0] consec [of 1] h have "snd (spans ! 1) = 15500"
      by (simp add: CHUNK_WORDS_def OVERLAP_WORDS_def)
    with each [of 1] three show False by (simp add: ws)
  qed
  moreover have "length spans \<noteq> 0" using ne by simp
  ultimately have two: "length spans = 2" by linarith
  with consec [of 0] h l have "spans ! 0 = (0, 8000)" "spans ! 1 = (7500, 8001)"
    by (auto simp: CHUNK_WORDS_def OVERLAP_WORDS_def prod_eq_iff)
  with each [of 0] each [of 1] two
  have "cs ! 0 = py_join '' '' (replicate 8000 ''a'')" "cs ! 1 = py_join '' '' (replicate 501 ''a'')"
    by (simp_all add: ws slice_def)
  moreover from two len have "cs = [cs ! 0, cs ! 1]"
    by (cases cs; cases "tl cs") auto
  ultimately show ?thesis using run unfolding T_def by simp
qed

text \<open>
  Claim C10. Splitting every chunk back into words, dropping the first \<open>OVERLAP_WORDS\<close> = 500
  words of every chunk but the first and concatenating the rest in chunk order gives back
  the word sequence of the transcript: no word is lost, none appears twice, and the order
  is kept.
\<close>

theorem chunks_reassemble:
  "\<exists>cs. chunk_transcript t = Some cs \<and> concat (drop_overlaps (map py_split cs)) = py_split t"
proof -
  obtain k where k: "chunk_transcript t = Some (map (window (py_split t)) [0..<k])"
    "py_split t = [] \<longrightarrow> k = 0"
    "py_split t \<noteq> [] \<longrightarrow> 0 < k \<and> length (py_split t) \<le> (k - 1) * 7500 + 8000"
    using chunk_transcript_closed [of t] by blast
  have "concat (drop_overlaps (map py_split (map (window (py_split t)) [0..<k]))) = py_split t"
  proof (cases "py_split t = []")
    case True
    with k(2) show ?thesis by (simp add: drop_overlaps_def)
  next
    case False
    with k(3) have "concat (drop_overlaps (map (\<lambda>i. slice (py_split t) (i * 7500) (i * 7500 + 8000)) [0..<k])) = py_split t"
      by (intro concat_windows) simp_all
    then show ?thesis by (simp add: o_def split_window)
  qed
  with k(1) show ?thesis by blast
qed

theorem chunks_reassemble_witness:
  "\<exists>cs. chunk_transcript (concat (replicate 8001 ''a '')) = Some cs
     \<and> concat (drop_overlaps (map py_split cs)) = replicate 8001 ''a''"
  using chunks_reassemble [of "concat (replicate 8001 ''a '')"] by (simp add: py_split_rep)


section \<open>Properties of summarize_transcript\<close>

lemma call_llm_calls:
  "snd (call_llm api sys usr mdl calls) = calls @ [\<lparr>system = sys, user = usr, model = mdl\<rparr>]"
  by (simp add: call_llm_def Let_def split: sum.splits option.splits)

lemma call_llm_answered:
  "isl (fst (call_llm api sys usr mdl calls))
     \<longleftrightarrow> \<not> answered api calls \<lparr>system = sys, user = usr, model = mdl\<rparr>"
  by (simp add: call_llm_def answered_def Let_def split: sum.splits option.splits)

lemma chunk_calls_Cons:
  "chunk_calls header mdl n ((i, c) # ics)
     = \<lparr>system = SYSTEM_PROMPT, user = chunk_user_msg header i n c, model = mdl\<rparr>
         # chunk_calls header mdl n ics"
  by (simp add: chunk_calls_def)

lemma summarize_chunks_strong:
  "summarize_chunks api header mdl n ics partial calls = (r, calls') \<Longrightarrow>
     \<exists>new. calls' = calls @ new \<and> prefix new (chunk_calls header mdl n ics)
       \<and> (\<forall>j. Suc j < length new \<longrightarrow> answered api (calls @ take j new) (new ! j))
       \<and> (\<not> isl r \<longrightarrow> new = chunk_calls header mdl n ics
              \<and> (new \<noteq> [] \<longrightarrow> answered api (calls @ butlast new) (last new)))
       \<and> (isl r \<longrightarrow> new \<noteq> [] \<and> \<not> answered api (calls @ butlast new) (last new))"
proof (induction ics arbitrary: partial calls)
  case Nil
  then show ?case by (auto simp: chunk_calls_def)
next
  case (Cons ic ics)
  obtain i c where ic: "ic = (i, c)" by (cases ic)
  define req where "req = \<lparr>system = SYSTEM_PROMPT, user = chunk_user_msg header i n c, model = mdl\<rparr>"
  obtain r1 calls1 where c1: "call_llm api SYSTEM_PROMPT (chunk_user_msg header i n c) mdl calls = (r1, calls1)"
    by (cases "call_llm api SYSTEM_PROMPT (chunk_user_msg header i n c) mdl calls")
  have calls1: "calls1 = calls @ [req]"
    using call_llm_calls [of api SYSTEM_PROMPT "chunk_user_msg header i n c" mdl calls] c1
    by (simp add: req_def)
  have ans: "isl r1 \<longleftrightarrow> \<not> answered api calls req"
    using call_llm_answered [of api SYSTEM_PROMPT "chunk_user_msg header i n c" mdl calls] c1
    by (simp add: req_def)
  have cc: "chunk_calls header mdl n (ic # ics) = req # chunk_calls header mdl n ics"
    by (simp add: ic chunk_calls_Cons req_def)
  show ?case
  proof (cases r1)
    case (Inl e)
    with Cons.prems c1 have "r = Inl e" "calls' = calls1" by (simp_all add: ic)
    then show ?thesis using calls1 ans Inl cc
      by (intro exI [of _ "[req]"]) simp
  next
    case (Inr s)
    with ans have first: "answered api calls req" by simp
    from Inr Cons.prems c1 have "summarize_chunks api header mdl n ics (partial @ [s]) calls1 = (r, calls')"
      by (simp add: ic)
    from Cons.IH [OF this] obtain new where new: "calls' = calls1 @ new"
      "prefix new (chunk_calls header mdl n ics)"
      "\<forall>j. Suc j < length new \<longrightarrow> answered api (calls1 @ take j new) (new ! j)"
      "\<not> isl r \<longrightarrow> new = chunk_calls header mdl n ics
              \<and> (new \<noteq> [] \<longrightarrow> answered api (calls1 @ butlast new) (last new))"
      "isl r \<longrightarrow> new \<noteq> [] \<and> \<not> answered api (calls1 @ butlast new) (last new)"
      by blast
    have before: "\<forall>j. Suc j < length (req # new) \<longrightarrow> answered api (calls @ take j (req # new)) ((req # new) ! j)"
    proof (intro allI impI)
      fix j assume j: "Suc j < length (req # new)"
      show "answered api (calls @ take j (req # new)) ((req # new) ! j)"
      proof (cases j)
        case 0
        with first show ?thesis by simp
      next
        case (Suc k)
        with j new(3) have "answered api (calls1 @ take k new) (new ! k)" by simp
        with Suc show ?thesis by (simp add: calls1)
      qed
    qed
    have last_ok: "answered api (calls @ butlast (req # new)) (last (req # new))"
      if "new \<noteq> [] \<longrightarrow> answered api (calls1 @ butlast new) (last new)"
      using that first by (cases "new = []") (simp_all add: calls1)
    have last_bad: "\<not> answered api (calls @ butlast (req # new)) (last (req # new))"
      if "new \<noteq> []" "\<not> answered api (calls1 @ butlast new) (last new)"
      using that by (simp add: calls1)
    show ?thesis
      using new(1,2,4,5) calls1 cc before last_ok last_bad
      by (intro exI [of _ "req # new"]) auto
  qed
qed

lemma summarize_chunks_answered:
  "\<forall>h c. answered api h c \<Longrightarrow> \<not> isl (fst (summarize_chunks api header mdl n ics partial calls))"
proof (induction ics arbitrary: partial calls)
  case Nil
  then show ?case by simp
next
  case (Cons ic ics)
  obtain i c where ic: "ic = (i, c)" by (cases ic)
  obtain r1 calls1 where c1: "call_llm api SYSTEM_PROMPT (chunk_user_msg header i n c) mdl calls = (r1, calls1)"
    by (cases "call_llm api SYSTEM_PROMPT (chunk_user_msg header i n c) mdl calls")
  have "\<not> isl r1"
    using call_llm_answered [of api SYSTEM_PROMPT "chunk_user_msg header i n c" mdl calls] c1 Cons.prems
    by simp
  then obtain s where "r1 = Inr s" by (cases r1) auto
  then show ?case using Cons.IH [OF Cons.prems] c1 by (simp add: ic)
qed

text \<open>
  Claim C3, as amended. A transcript of at most 10,000 words makes \<open>summarize_transcript\<close>
  issue exactly one call, with the fixed system prompt. For a longer transcript the calls
  issued are an initial part, not empty, of the sequence made of one call per chunk in chunk
  order followed by one merge call. Every call issued before the last one was answered, and
  the run aborts exactly when the last call issued is not answered: a call that fails ends
  the run at that call. A run that does not abort has issued the whole sequence and nothing
  more, and a run in which every call is answered does not abort.
\<close>

theorem summarize_calls:
  "\<exists>r calls'. summarize_transcript api t title course mdl calls = Some (r, calls')
     \<and> (word_count t \<le> 10000 \<longrightarrow>
          calls' = calls @ [\<lparr>system = SYSTEM_PROMPT,
                              user = context_header title course @ NL @ NL @ ''---'' @ NL @ NL @ t,
                              model = mdl\<rparr>]
        \<and> (isl r \<longleftrightarrow> \<not> answered api calls \<lparr>system = SYSTEM_PROMPT,
                              user = context_header title course @ NL @ NL @ ''---'' @ NL @ NL @ t,
                              model = mdl\<rparr>))
     \<and> (10000 < word_count t \<longrightarrow>
          (\<exists>cs merge_msg new.
              chunk_transcript t = Some cs \<and> calls' = calls @ new \<and> new \<noteq> []
            \<and> prefix new (chunk_calls (context_header title course) mdl (length cs) (enumerate 1 cs)
                            @ [\<lparr>system = MERGE_SYSTEM_PROMPT, user = merge_msg, model = mdl\<rparr>])
            \<and> (\<not> isl r \<longrightarrow>
                  new = chunk_calls (context_header title course) mdl (length cs) (enumerate 1 cs)
                          @ [\<lparr>system = MERGE_SYSTEM_PROMPT, user = merge_msg, model = mdl\<rparr>])
            \<and> (\<forall>j. Suc j < length new \<longrightarrow> answered api (calls @ take j new) (new ! j))
            \<and> (isl r \<longleftrightarrow> \<not> answered api (calls @ butlast new) (last new))
            \<and> ((\<forall>h c. answered api h c) \<longrightarrow> \<not> isl r)))"
proof (cases "word_count t \<le> 10000")
  case True
  define usr where "usr = context_header title course @ NL @ NL @ ''---'' @ NL @ NL @ t"
  define res where "res = call_llm api SYSTEM_PROMPT usr mdl calls"
  have "summarize_transcript api t title course mdl calls = Some (fst res, snd res)"
    using True by (simp add: summarize_transcript_def res_def usr_def)
  moreover have "snd res = calls @ [\<lparr>system = SYSTEM_PROMPT, user = usr, model = mdl\<rparr>]"
    unfolding res_def by (rule call_llm_calls)
  moreover have "isl (fst res) \<longleftrightarrow> \<not> answered api calls \<lparr>system = SYSTEM_PROMPT, user = usr, model = mdl\<rparr>"
    unfolding res_def by (rule call_llm_answered)
  ultimately show ?thesis using True unfolding usr_def by auto
next
  case False
  define header where "header = context_header title course"
  obtain cs where cs: "chunk_transcript t = Some cs"
    using chunk_transcript_closed [of t] by blast
  define planned where "planned = chunk_calls header mdl (length cs) (enumerate 1 cs)"
  obtain r1 calls1 where s1: "summarize_chunks api header mdl (length cs) (enumerate 1 cs) [] calls = (r1, calls1)"
    by (cases "summarize_chunks api header mdl (length cs) (enumerate 1 cs) [] calls")
  from summarize_chunks_strong [OF s1] obtain new1 where new1: "calls1 = calls @ new1"
    "prefix new1 planned"
    "\<forall>j. Suc j < length new1 \<longrightarrow> answered api (calls @ take j new1) (new1 ! j)"
    "\<not> isl r1 \<longrightarrow> new1 = planned \<and> (new1 \<noteq> [] \<longrightarrow> answered api (calls @ butlast new1) (last new1))"
    "isl r1 \<longrightarrow> new1 \<noteq> [] \<and> \<not> answered api (calls @ butlast new1) (last new1)"
    unfolding planned_def by blast
  have all1: "(\<forall>h c. answered api h c) \<longrightarrow> \<not> isl r1"
    using summarize_chunks_answered [of api header mdl "length cs" "enumerate 1 cs" "[]" calls] s1
    by auto
  show ?thesis
  proof (cases r1)
    case (Inl e)
    then have run: "summarize_transcript api t title course mdl calls = Some (Inl e, calls1)"
      using False cs s1 by (simp add: summarize_transcript_def header_def)
    have "prefix new1 (planned @ [\<lparr>system = MERGE_SYSTEM_PROMPT, user = [], model = mdl\<rparr>])"
      using new1(2) by (simp add: prefix_prefix)
    then show ?thesis
      using False run cs new1 all1 Inl unfolding planned_def header_def
      by (intro exI [of _ "Inl e"] exI [of _ calls1] conjI impI
            exI [of _ cs] exI [of _ "[]"] exI [of _ new1]) auto
  next
    case (Inr ps)
    define mm where "mm = merge_user_msg header ps"
    define req where "req = \<lparr>system = MERGE_SYSTEM_PROMPT, user = mm, model = mdl\<rparr>"
    define res where "res = call_llm api MERGE_SYSTEM_PROMPT mm mdl calls1"
    from Inr new1 have p: "new1 = planned"
      and plast: "planned \<noteq> [] \<longrightarrow> answered api (calls @ butlast planned) (last planned)"
      and pbefore: "\<forall>j. Suc j < length planned \<longrightarrow> answered api (calls @ take j planned) (planned ! j)"
      by auto
    have run: "summarize_transcript api t title course mdl calls = Some (fst res, snd res)"
      using False cs s1 Inr by (simp add: summarize_transcript_def header_def res_def mm_def)
    have calls': "snd res = calls @ (planned @ [req])"
      using call_llm_calls [of api MERGE_SYSTEM_PROMPT mm mdl calls1] new1(1) p
      by (simp add: res_def req_def)
    have ans: "isl (fst res) \<longleftrightarrow> \<not> answered api (calls @ butlast (planned @ [req])) (last (planned @ [req]))"
      using call_llm_answered [of api MERGE_SYSTEM_PROMPT mm mdl calls1] new1(1) p
      by (simp add: res_def req_def)
    have before: "\<forall>j. Suc j < length (planned @ [req])
                    \<longrightarrow> answered api (calls @ take j (planned @ [req])) ((planned @ [req]) ! j)"
    proof (intro allI impI)
      fix j assume "Suc j < length (planned @ [req])"
      then have j: "j < length planned" by simp
      then have eq: "take j (planned @ [req]) = take j planned" "(planned @ [req]) ! j = planned ! j"
        by (simp_all add: nth_append)
      show "answered api (calls @ take j (planned @ [req])) ((planned @ [req]) ! j)"
      proof (cases "Suc j < length planned")
        case True
        with pbefore show ?thesis unfolding eq by simp
      next
        case False
        with j have sj: "j = length planned - 1" and ne: "planned \<noteq> []" by auto
        have "butlast planned = take j planned" "last planned = planned ! j" "planned \<noteq> []"
          using ne by (simp_all add: sj butlast_conv_take last_conv_nth)
        with plast show ?thesis unfolding eq by simp
      qed
    qed
    have pre: "prefix (planned @ [req]) (planned @ [req])" by simp
    show ?thesis
      using False run cs calls' ans before pre
      unfolding planned_def header_def req_def
      by (intro exI [of _ "fst res"] exI [of _ "snd res"] conjI impI
            exI [of _ cs] exI [of _ mm] exI [of _ "planned @ [req]"])
         (auto simp: planned_def header_def req_def)
  qed
qed

lemma two_chunks:
  assumes "length (py_split t) = 10001"
  shows "\<exists>c1 c2. chunk_transcript t = Some [c1, c2]"
proof -
  obtain k where k: "chunk_transcript t = Some (map (window (py_split t)) [0..<k])"
    "py_split t \<noteq> [] \<longrightarrow> 0 < k \<and> length (py_split t) \<le> (k - 1) * 7500 + 8000
            \<and> (k = 1 \<or> (k - 1) * 7500 + 500 < length (py_split t))"
    using chunk_transcript_closed [of t] by blast
  have "py_split t \<noteq> []" using assms by auto
  with k(2) assms have "k = 2" by auto
  then have "[0..<k] = [0, 1]" by (simp add: upt_rec)
  with k(1) show ?thesis by simp
qed

lemma call_llm_down:
  "call_llm backend_down sys usr mdl calls
     = (Inl (SystemExit 1), calls @ [\<lparr>system = sys, user = usr, model = mdl\<rparr>])"
  by (simp add: call_llm_def backend_down_def)

text \<open>
  Claim C3 as stated fails when the service is down: for a transcript of 10,001 words, which
  has two chunks, the run issues one call and not three.
\<close>

theorem summarize_calls_counterexample:
  "word_count (concat (replicate 10001 ''a '')) = 10001
   \<and> map_option length (chunk_transcript (concat (replicate 10001 ''a ''))) = Some 2
   \<and> map_option (length \<circ> snd)
        (summarize_transcript backend_down (concat (replicate 10001 ''a '')) ''Lecture 1'' None
           ''gpt-4o-mini'' []) = Some 1"
proof -
  define T where "T = concat (replicate 10001 ''a '')"
  have wc: "word_count T = 10001" by (simp add: word_count_def T_def py_split_rep)
  then obtain c1 c2 where cs: "chunk_transcript T = Some [c1, c2]"
    using two_chunks [of T] by (auto simp: word_count_def)
  have "map_option (length \<circ> snd)
        (summarize_transcript backend_down T ''Lecture 1'' None ''gpt-4o-mini'' []) = Some 1"
    using wc cs by (simp add: summarize_transcript_def call_llm_down Let_def)
  with wc cs show ?thesis unfolding T_def by simp
qed

theorem summarize_calls_witness:
  "map_option (map system \<circ> snd)
     (summarize_transcript backend_up ''hello world'' ''Lecture 1'' None ''gpt-4o-mini'' [])
     = Some [SYSTEM_PROMPT]
   \<and> map_option (map system \<circ> snd)
       (summarize_transcript backend_up (concat (replicate 10001 ''a '')) ''Lecture 1'' None
          ''gpt-4o-mini'' [])
     = Some [SYSTEM_PROMPT, SYSTEM_PROMPT, MERGE_SYSTEM_PROMPT]
   \<and> map_option (length \<circ> snd)
       (summarize_transcript backend_down (concat (replicate 10001 ''a '')) ''Lecture 1'' None
          ''gpt-4o-mini'' [])
     = Some 1"
proof -
  define T where "T = concat (replicate 10001 ''a '')"
  have up: "\<forall>h c. answered backend_up h c" by (simp add: answered_def backend_up_def)
  have down: "\<not> answered backend_down h c" for h c by (simp add: answered_def backend_down_def)
  have small: "word_count ''hello world'' \<le> 10000"
    by (simp add: word_count_def py_split_def is_space_def)
  have big: "10000 < word_count T" by (simp add: word_count_def T_def py_split_rep)
  from summarize_calls [of backend_up "''hello world''" "''Lecture 1''" None "''gpt-4o-mini''" "[]"] small
  have a: "map_option (map system \<circ> snd)
     (summarize_transcript backend_up ''hello world'' ''Lecture 1'' None ''gpt-4o-mini'' [])
     = Some [SYSTEM_PROMPT]"
    by auto
  obtain c1 c2 where cs: "chunk_transcript T = Some [c1, c2]"
    using two_chunks [of T] by (auto simp: word_count_def T_def py_split_rep)
  from summarize_calls [of backend_up T "''Lecture 1''" None "''gpt-4o-mini''" "[]"] big
  obtain r calls' cs merge_msg new where run:
    "summarize_transcript backend_up T ''Lecture 1'' None ''gpt-4o-mini'' [] = Some (r, calls')"
    and plan: "chunk_transcript T = Some cs" "calls' = [] @ new"
    and ok: "\<not> isl r \<longrightarrow>
                  new = chunk_calls (context_header ''Lecture 1'' None) ''gpt-4o-mini'' (length cs) (enumerate 1 cs)
                          @ [\<lparr>system = MERGE_SYSTEM_PROMPT, user = merge_msg, model = ''gpt-4o-mini''\<rparr>]"
    and fine: "(\<forall>h c. answered backend_up h c) \<longrightarrow> \<not> isl r"
    by blast
  from plan(1) cs have "cs = [c1, c2]" by simp
  with ok fine up plan(2) have "map system calls' = [SYSTEM_PROMPT, SYSTEM_PROMPT, MERGE_SYSTEM_PROMPT]"
    by (simp add: chunk_calls_def)
  with run have b: "map_option (map system \<circ> snd)
       (summarize_transcript backend_up T ''Lecture 1'' None ''gpt-4o-mini'' [])
     = Some [SYSTEM_PROMPT, SYSTEM_PROMPT, MERGE_SYSTEM_PROMPT]"
    by simp
  from summarize_calls [of backend_down T "''Lecture 1''" None "''gpt-4o-mini''" "[]"] big
  obtain r' calls'' new' where run':
    "summarize_transcript backend_down T ''Lecture 1'' None ''gpt-4o-mini'' [] = Some (r', calls'')"
    and issued: "calls'' = [] @ new'" "new' \<noteq> []"
    and before: "\<forall>j. Suc j < length new' \<longrightarrow> answered backend_down ([] @ take j new') (new' ! j)"
    by blast
  have "\<not> Suc 0 < length new'" using before down by blast
  with issued(2) have "length new' = 1" by (cases new') auto
  with run' issued(1) have c: "map_option (length \<circ> snd)
       (summarize_transcript backend_down T ''Lecture 1'' None ''gpt-4o-mini'' []) = Some 1"
    by simp
  from a b c show ?thesis unfolding T_def by simp
qed

section \<open>Properties of split_audio\<close>

lemma split_audio_length:
  "length (fst (split_audio tmp_dir a s)) = nat \<lfloor>file_size_mb a / 24\<rfloor> + 1"
  by (simp add: split_audio_def Let_def max_size_mb_def del: upt_Suc)

lemma split_audio_nth:
  assumes "i < length (fst (split_audio tmp_dir a s))"
  shows "chunk_start_ms (fst (split_audio tmp_dir a s) ! i)
           = i * (duration_ms a div length (fst (split_audio tmp_dir a s)))"
    and "chunk_end_ms (fst (split_audio tmp_dir a s) ! i)
           = (if i < length (fst (split_audio tmp_dir a s)) - 1
              then i * (duration_ms a div length (fst (split_audio tmp_dir a s)))
                     + duration_ms a div length (fst (split_audio tmp_dir a s))
              else duration_ms a)"
    and "chunk_path (fst (split_audio tmp_dir a s) ! i) = (tmp_dir, chunk_name i (file_suffix a))"
  using assms by (simp_all add: split_audio_def Let_def max_size_mb_def del: upt_Suc)

lemma ranges_partition:
  fixes n d L :: nat
  assumes n: "0 < n" and d: "d = L div n"
  defines "e \<equiv> \<lambda>i. if i < n - 1 then i * d + d else L"
  shows "(\<Union>i\<in>{0..<n}. {i * d..<e i}) = {0..<L}"
    and "\<forall>i<n. \<forall>j<n. i \<noteq> j \<longrightarrow> {i * d..<e i} \<inter> {j * d..<e j} = {}"
    and "\<forall>i<n. i * d \<le> e i \<and> e i \<le> L"
proof -
  have "n * d \<le> L" unfolding d by simp
  moreover have "n * d = (n - 1) * d + d" using n by (cases n) simp_all
  ultimately have last: "(n - 1) * d + d \<le> L" by simp
  have inner: "i * d + d \<le> (n - 1) * d" if "i < n - 1" for i
  proof -
    from that have "Suc i \<le> n - 1" by simp
    then have "Suc i * d \<le> (n - 1) * d" by (rule mult_le_mono1)
    then show ?thesis by (simp add: add.commute)
  qed
  show bounds: "\<forall>i<n. i * d \<le> e i \<and> e i \<le> L"
  proof (intro allI impI)
    fix i assume "i < n"
    show "i * d \<le> e i \<and> e i \<le> L"
    proof (cases "i < n - 1")
      case True
      with inner [OF True] last show ?thesis by (simp add: e_def)
    next
      case False
      with \<open>i < n\<close> have "i = n - 1" by simp
      with last show ?thesis by (simp add: e_def)
    qed
  qed
  show "(\<Union>i\<in>{0..<n}. {i * d..<e i}) = {0..<L}"
  proof (intro set_eqI iffI)
    fix x assume "x \<in> (\<Union>i\<in>{0..<n}. {i * d..<e i})"
    then obtain i where "i < n" "x < e i" by auto
    with bounds show "x \<in> {0..<L}" by force
  next
    fix x assume "x \<in> {0..<L}"
    then have x: "x < L" by simp
    show "x \<in> (\<Union>i\<in>{0..<n}. {i * d..<e i})"
    proof (cases "x < (n - 1) * d")
      case True
      then have dpos: "0 < d" by (cases d) simp_all
      have "x div d < n - 1" using True dpos by (simp add: div_less_iff_less_mult)
      moreover have "x div d * d \<le> x" by simp
      moreover have "x < x div d * d + d"
        using dpos by (metis mod_less_divisor div_mult_mod_eq add_less_cancel_left mult.commute)
      ultimately show ?thesis using n by (auto simp: e_def intro!: bexI [of _ "x div d"])
    next
      case False
      then show ?thesis using x n by (auto simp: e_def intro!: bexI [of _ "n - 1"])
    qed
  qed
  have lt: "{i * d..<e i} \<inter> {j * d..<e j} = {}" if "i < j" "j < n" for i j
  proof -
    from that have "i < n - 1" by simp
    then have "e i = Suc i * d" by (simp add: e_def)
    moreover have "Suc i * d \<le> j * d" using that(1) by (intro mult_le_mono1) simp
    ultimately show ?thesis by auto
  qed
  show "\<forall>i<n. \<forall>j<n. i \<noteq> j \<longrightarrow> {i * d..<e i} \<inter> {j * d..<e j} = {}"
  proof (intro allI impI)
    fix i j assume "i < n" "j < n" "i \<noteq> j"
    then consider "i < j" | "j < i" by linarith
    then show "{i * d..<e i} \<inter> {j * d..<e j} = {}"
      using lt [of i j] lt [of j i] \<open>i < n\<close> \<open>j < n\<close> by (cases) auto
  qed
qed

text \<open>
  Claim C1. The plan of \<open>split_audio\<close> has \<open>floor (file_size_mb / 24) + 1\<close> chunks, for every
  file and so for every file above 24 MB. The first chunk starts at 0, every chunk ends
  where the next one starts, and the last one ends at the length of the audio, so the time
  ranges cover \<open>[0, duration_ms)\<close> exactly and no two of them meet. Every chunk but the last
  lasts \<open>duration_ms div n\<close>; the last one takes what remains.
\<close>

theorem split_audio_partition:
  "let plan = fst (split_audio tmp_dir a s); n = length plan; d = duration_ms a div n
   in n = nat \<lfloor>file_size_mb a / 24\<rfloor> + 1
    \<and> chunk_start_ms (hd plan) = 0
    \<and> chunk_end_ms (last plan) = duration_ms a
    \<and> (\<forall>i<n. chunk_start_ms (plan ! i) \<le> chunk_end_ms (plan ! i)
              \<and> chunk_end_ms (plan ! i) \<le> duration_ms a)
    \<and> (\<forall>i. Suc i < n \<longrightarrow>
            chunk_end_ms (plan ! i) = chunk_start_ms (plan ! Suc i)
          \<and> chunk_end_ms (plan ! i) - chunk_start_ms (plan ! i) = d)
    \<and> chunk_end_ms (last plan) - chunk_start_ms (last plan) = duration_ms a - d * (n - 1)
    \<and> (\<Union>c\<in>set plan. {chunk_start_ms c..<chunk_end_ms c}) = {0..<duration_ms a}
    \<and> (\<forall>i<n. \<forall>j<n. i \<noteq> j \<longrightarrow>
            {chunk_start_ms (plan ! i)..<chunk_end_ms (plan ! i)}
              \<inter> {chunk_start_ms (plan ! j)..<chunk_end_ms (plan ! j)} = {})"
proof -
  define plan where "plan = fst (split_audio tmp_dir a s)"
  define n where "n = length plan"
  define L where "L = duration_ms a"
  define d where "d = L div n"
  define e where "e = (\<lambda>i. if i < n - 1 then i * d + d else L)"
  have len: "n = nat \<lfloor>file_size_mb a / 24\<rfloor> + 1"
    unfolding n_def plan_def by (rule split_audio_length)
  then have pos: "0 < n" by simp
  have st: "chunk_start_ms (plan ! i) = i * d" if "i < n" for i
    using that split_audio_nth(1) [of i tmp_dir a s] by (simp add: plan_def n_def d_def L_def)
  have en: "chunk_end_ms (plan ! i) = e i" if "i < n" for i
    using that split_audio_nth(2) [of i tmp_dir a s] by (simp add: plan_def n_def d_def L_def e_def)
  have ne: "plan \<noteq> []" using pos by (auto simp: n_def)
  have hd: "hd plan = plan ! 0" using ne by (simp add: hd_conv_nth)
  have la: "last plan = plan ! (n - 1)" using ne by (simp add: last_conv_nth n_def)
  note part = ranges_partition [OF pos d_def]
  have c2: "chunk_start_ms (hd plan) = 0" using st [of 0] pos hd by simp
  have c3: "chunk_end_ms (last plan) = L" using en [of "n - 1"] pos la by (simp add: e_def)
  have c4: "\<forall>i<n. chunk_start_ms (plan ! i) \<le> chunk_end_ms (plan ! i) \<and> chunk_end_ms (plan ! i) \<le> L"
    using part(3) st en by (simp add: e_def)
  have c5: "\<forall>i. Suc i < n \<longrightarrow>
            chunk_end_ms (plan ! i) = chunk_start_ms (plan ! Suc i)
          \<and> chunk_end_ms (plan ! i) - chunk_start_ms (plan ! i) = d"
  proof (intro allI impI)
    fix i assume i: "Suc i < n"
    then have "i < n" "i < n - 1" by simp_all
    then show "chunk_end_ms (plan ! i) = chunk_start_ms (plan ! Suc i)
          \<and> chunk_end_ms (plan ! i) - chunk_start_ms (plan ! i) = d"
      using st [of i] st [of "Suc i"] en [of i] i by (simp add: e_def)
  qed
  have c6: "chunk_end_ms (last plan) - chunk_start_ms (last plan) = L - d * (n - 1)"
    using c3 st [of "n - 1"] pos la by (simp add: mult.commute)
  have c7: "(\<Union>c\<in>set plan. {chunk_start_ms c..<chunk_end_ms c}) = {0..<L}"
  proof -
    have "set plan = (!) plan ` {0..<n}"
      using nth_image [of n plan] by (simp add: n_def)
    then have "(\<Union>c\<in>set plan. {chunk_start_ms c..<chunk_end_ms c})
        = (\<Union>i\<in>{0..<n}. {chunk_start_ms (plan ! i)..<chunk_end_ms (plan ! i)})"
      by simp
    also have "\<dots> = (\<Union>i\<in>{0..<n}. {i * d..<e i})"
      using st en by simp
    finally show ?thesis using part(1) by (simp add: e_def)
  qed
  have c8: "\<forall>i<n. \<forall>j<n. i \<noteq> j \<longrightarrow>
            {chunk_start_ms (plan ! i)..<chunk_end_ms (plan ! i)}
              \<inter> {chunk_start_ms (plan ! j)..<chunk_end_ms (plan ! j)} = {}"
    using part(2) st en by (simp add: e_def)
  show ?thesis
    unfolding Let_def plan_def [symmetric] n_def [symmetric] L_def [symmetric] d_def [symmetric]
    using len c2 c3 c4 c5 c6 c7 c8 by blast
qed

theorem split_audio_partition_witness:
  "map (\<lambda>c. (chunk_start_ms c, chunk_end_ms c)) (fst (split_audio ''/tmp/lecture2obs_1'' lecture_30mb no_files))
     = [(0, 300000), (300000, 600000)]"
proof -
  define plan where "plan = fst (split_audio ''/tmp/lecture2obs_1'' lecture_30mb no_files)"
  have fl: "\<lfloor>file_size_mb lecture_30mb / 24\<rfloor> = 1"
    by (simp add: file_size_mb_def lecture_30mb_def floor_eq_iff)
  have L: "duration_ms lecture_30mb = 600000" by (simp add: lecture_30mb_def)
  from split_audio_partition [of "''/tmp/lecture2obs_1''" lecture_30mb no_files]
  have n': "length plan = nat \<lfloor>file_size_mb lecture_30mb / 24\<rfloor> + 1"
    and h: "chunk_start_ms (hd plan) = 0"
    and l': "chunk_end_ms (last plan) = duration_ms lecture_30mb"
    and c': "\<forall>i. Suc i < length plan \<longrightarrow>
            chunk_end_ms (plan ! i) = chunk_start_ms (plan ! Suc i)
          \<and> chunk_end_ms (plan ! i) - chunk_start_ms (plan ! i) = duration_ms lecture_30mb div length plan"
    unfolding Let_def plan_def [symmetric] by blast+
  from n' have n: "length plan = 2" by (simp add: fl)
  from l' have l: "chunk_end_ms (last plan) = 600000" by (simp add: L)
  from c' n have c: "chunk_end_ms (plan ! 0) = chunk_start_ms (plan ! 1)"
    "chunk_end_ms (plan ! 0) - chunk_start_ms (plan ! 0) = 300000"
    by (auto simp: L)
  from n obtain c0 c1 where p: "plan = [c0, c1]"
    by (cases plan; cases "tl plan") auto
  with h l c have "chunk_start_ms c0 = 0" "chunk_end_ms c1 = 600000"
    "chunk_end_ms c0 = chunk_start_ms c1" "chunk_end_ms c0 - chunk_start_ms c0 = 300000"
    by simp_all
  then show ?thesis unfolding plan_def [symmetric] p by simp
qed

lemma floor_plus_one:
  fixes x :: rat
  assumes "0 \<le> x"
  shows "nat \<lfloor>x\<rfloor> + 1 = (if x \<in> \<int> then nat \<lceil>x\<rceil> + 1 else nat \<lceil>x\<rceil>)"
proof (cases "x \<in> \<int>")
  case True
  then obtain k where "x = of_int k" by (auto elim: Ints_cases)
  then show ?thesis using True by simp
next
  case False
  then have "x \<noteq> of_int \<lfloor>x\<rfloor>" by (metis Ints_of_int)
  then have "\<lceil>x\<rceil> = \<lfloor>x\<rfloor> + 1" by (simp add: ceiling_altdef)
  moreover have "0 \<le> \<lfloor>x\<rfloor>" using assms by simp
  ultimately show ?thesis using False by (simp add: nat_add_distrib)
qed

text \<open>
  Claim C2, as amended. The number of chunks is \<open>ceil (file_size_mb / 24)\<close> when the size is
  not a whole multiple of 24 MB, and one more than that when it is.
\<close>

theorem split_audio_count:
  "length (fst (split_audio tmp_dir a s))
     = (if file_size_mb a / max_size_mb \<in> \<int> then nat \<lceil>file_size_mb a / max_size_mb\<rceil> + 1
        else nat \<lceil>file_size_mb a / max_size_mb\<rceil>)"
proof -
  have "0 \<le> file_size_mb a / max_size_mb"
    by (simp add: file_size_mb_def max_size_mb_def)
  from floor_plus_one [OF this] show ?thesis
    by (simp add: split_audio_def Let_def del: upt_Suc)
qed

theorem split_audio_count_witness:
  "length (fst (split_audio ''/tmp/lecture2obs_1'' lecture_30mb no_files)) = 2
   \<and> nat \<lceil>file_size_mb lecture_30mb / max_size_mb\<rceil> = 2"
proof -
  have x: "file_size_mb lecture_30mb / max_size_mb = 5 / 4"
    by (simp add: file_size_mb_def lecture_30mb_def max_size_mb_def)
  have "(5 / 4 :: rat) \<notin> \<int>"
  proof
    assume "(5 / 4 :: rat) \<in> \<int>"
    then obtain k :: int where "(5 / 4 :: rat) = of_int k" by (auto elim: Ints_cases)
    then have "(5 :: rat) = of_int (4 * k)" by simp
    then have "(5 :: int) = 4 * k" by (metis of_int_eq_iff of_int_numeral)
    then show False by presburger
  qed
  moreover have c: "\<lceil>5 / 4 :: rat\<rceil> = 2" by (simp add: ceiling_eq_iff)
  ultimately show ?thesis
    using split_audio_count [of "''/tmp/lecture2obs_1''" lecture_30mb no_files]
    by (simp add: x)
qed

text \<open>
  Claim C2 as stated fails for a file of exactly 48 MB: it is split into three chunks, and
  \<open>ceil (48 / 24)\<close> is two.
\<close>

theorem split_audio_count_counterexample:
  "24 < file_size_mb lecture_48mb
   \<and> length (fst (split_audio ''/tmp/lecture2obs_1'' lecture_48mb no_files)) = 3
   \<and> nat \<lceil>file_size_mb lecture_48mb / max_size_mb\<rceil> = 2"
proof -
  have x: "file_size_mb lecture_48mb = 48"
    by (simp add: file_size_mb_def lecture_48mb_def)
  show ?thesis
    by (simp add: x split_audio_def Let_def max_size_mb_def del: upt_Suc)
qed


section \<open>Properties of _transcribe_api\<close>

lemma transcribe_single_isl: "isl (transcribe_single api p) \<longleftrightarrow> isl (api p)"
  by (simp add: transcribe_single_def split: sum.splits)

lemma transcribe_single_Inr: "\<not> isl (api p) \<Longrightarrow> transcribe_single api p = Inr (projr (api p))"
  by (cases "api p") (simp_all add: transcribe_single_def)

lemma transcribe_chunks_fail:
  "\<exists>p\<in>set ps. isl (api p) \<Longrightarrow> isl (transcribe_chunks api ps parts)"
proof (induction ps arbitrary: parts)
  case Nil
  then show ?case by simp
next
  case (Cons p ps)
  show ?case
  proof (cases "transcribe_single api p")
    case (Inl e)
    then show ?thesis by simp
  next
    case (Inr response)
    then have "\<not> isl (api p)" using transcribe_single_isl [of api p] by simp
    with Cons.prems have "\<exists>q\<in>set ps. isl (api q)" by auto
    from Cons.IH [OF this] Inr show ?thesis by simp
  qed
qed

lemma transcribe_chunks_ok:
  "\<forall>p\<in>set ps. \<not> isl (api p) \<Longrightarrow>
     transcribe_chunks api ps parts = Inr (parts @ map (\<lambda>p. projr (api p)) ps)"
proof (induction ps arbitrary: parts)
  case Nil
  then show ?case by simp
next
  case (Cons p ps)
  then have "transcribe_single api p = Inr (projr (api p))"
    by (simp add: transcribe_single_Inr)
  moreover have "transcribe_chunks api ps (parts @ [projr (api p)])
                   = Inr ((parts @ [projr (api p)]) @ map (\<lambda>p. projr (api p)) ps)"
    using Cons.prems by (intro Cons.IH) simp
  ultimately show ?case by simp
qed

lemma fold_unlink: "fold unlink ps s = s\<lparr>files := files s - set ps\<rparr>"
proof (induction ps arbitrary: s)
  case Nil
  then show ?case by simp
next
  case (Cons p ps)
  have "files s - {p} - set ps = files s - insert p (set ps)" by auto
  with Cons show ?case by (simp add: unlink_def)
qed

lemma split_audio_paths:
  "c \<in> set (fst (split_audio tmp_dir a s)) \<Longrightarrow> fst (chunk_path c) = tmp_dir"
  by (auto simp: split_audio_def Let_def simp del: upt_Suc)

lemma split_audio_fs:
  "snd (split_audio tmp_dir a s)
     = s\<lparr>dirs := insert tmp_dir (dirs s),
          files := files s \<union> chunk_path ` set (fst (split_audio tmp_dir a s))\<rparr>"
  by (simp add: split_audio_def Let_def del: upt_Suc)

lemma split_audio_nonempty: "fst (split_audio tmp_dir a s) \<noteq> []"
  by (simp add: split_audio_def Let_def del: upt_Suc)

lemma split_audio_run_ok:
  assumes "\<not> isl (fst (split_audio_run fault tmp_dir a s))"
  shows "split_audio_run fault tmp_dir a s
           = (Inr (fst (split_audio tmp_dir a s)), snd (split_audio tmp_dir a s))"
proof (cases fault)
  case None
  then show ?thesis by (simp add: split_audio_run_def)
next
  case (Some f)
  with assms show ?thesis
    by (cases f) (simp_all add: split_audio_run_def Let_def split: if_splits)
qed

lemma transcribe_api_unfold:
  assumes big: "24 < file_size_mb a"
    and fresh: "tmp_dir \<notin> dirs s" "tmp_dir \<notin> fst ` files s"
    and split: "\<not> isl (fst (split_audio_run fault tmp_dir a s))"
  shows "transcribe_api api fault tmp_dir a s
           = (case transcribe_chunks api (map chunk_path (fst (split_audio tmp_dir a s))) [] of
                Inl e \<Rightarrow> Inl e
              | Inr parts \<Rightarrow> Inr (py_join '' '' parts), s)"
proof -
  define plan where "plan = fst (split_audio tmp_dir a s)"
  define paths where "paths = map chunk_path plan"
  define s1 where "s1 = snd (split_audio tmp_dir a s)"
  obtain c cs where plan: "plan = c # cs"
    using split_audio_nonempty [of tmp_dir a s] by (cases plan) (auto simp: plan_def)
  have dir: "fst p = tmp_dir" if "p \<in> set paths" for p
    using that split_audio_paths [of _ tmp_dir a s] by (auto simp: paths_def plan_def)
  then have disj: "files s \<inter> set paths = {}"
    using fresh(2) by force
  have s1: "s1 = s\<lparr>dirs := insert tmp_dir (dirs s), files := files s \<union> set paths\<rparr>"
    unfolding s1_def paths_def plan_def by (simp add: split_audio_fs)
  have "files s \<union> set paths - set paths = files s" using disj by auto
  then have s2: "fold unlink paths s1 = s\<lparr>dirs := insert tmp_dir (dirs s)\<rparr>"
    by (simp add: fold_unlink s1)
  have "rmdir tmp_dir (s\<lparr>dirs := insert tmp_dir (dirs s)\<rparr>) = Inr s"
    using fresh by (simp add: rmdir_def)
  with s2 have rm: "rmdir tmp_dir (fold unlink paths s1) = Inr s" by simp
  have first: "paths = chunk_path c # map chunk_path cs" "fst (chunk_path c) = tmp_dir"
    using plan dir [of "chunk_path c"] by (simp_all add: paths_def)
  have sp: "split_audio_run fault tmp_dir a s = (Inr plan, s1)"
    using split_audio_run_ok [OF split] by (simp add: plan_def s1_def)
  show ?thesis
    using big rm first
    unfolding transcribe_api_def sp plan_def [symmetric] paths_def [symmetric]
    by (simp add: Let_def paths_def [symmetric])
qed

text \<open>
  Claim C8. For a file above 24 MB that has been split, with the temporary directory
  freshly made, the run of \<open>_transcribe_api\<close> leaves the file system as it found it: no
  chunk file and no temporary directory remains, whether the loop over the chunks ended or
  stopped partway. When the transcription of any chunk fails, the outcome is the exception
  and no text; when none fails, it is the texts of all chunks in order, joined by single
  spaces.
\<close>

theorem transcribe_api_cleanup:
  assumes "24 < file_size_mb a" "tmp_dir \<notin> dirs s" "tmp_dir \<notin> fst ` files s"
    and "\<not> isl (fst (split_audio_run fault tmp_dir a s))"
  shows "snd (transcribe_api api fault tmp_dir a s) = s
    \<and> tmp_dir \<notin> dirs (snd (transcribe_api api fault tmp_dir a s))
    \<and> (\<forall>c\<in>set (fst (split_audio tmp_dir a s)). chunk_path c \<notin> files (snd (transcribe_api api fault tmp_dir a s)))
    \<and> ((\<exists>c\<in>set (fst (split_audio tmp_dir a s)). isl (api (chunk_path c)))
          \<longrightarrow> isl (fst (transcribe_api api fault tmp_dir a s)))
    \<and> ((\<forall>c\<in>set (fst (split_audio tmp_dir a s)). \<not> isl (api (chunk_path c)))
          \<longrightarrow> fst (transcribe_api api fault tmp_dir a s)
                = Inr (py_join '' '' (map (\<lambda>c. projr (api (chunk_path c))) (fst (split_audio tmp_dir a s)))))"
proof -
  define plan where "plan = fst (split_audio tmp_dir a s)"
  note run = transcribe_api_unfold [OF assms, of api, folded plan_def]
  have a: "snd (transcribe_api api fault tmp_dir a s) = s" by (simp add: run)
  have b: "tmp_dir \<notin> dirs s" by (rule assms(2))
  have c: "\<forall>c\<in>set plan. chunk_path c \<notin> files s"
  proof
    fix c assume "c \<in> set plan"
    then have "fst (chunk_path c) = tmp_dir" unfolding plan_def by (rule split_audio_paths)
    with assms(3) show "chunk_path c \<notin> files s" by force
  qed
  have d: "isl (fst (transcribe_api api fault tmp_dir a s))" if "\<exists>c\<in>set plan. isl (api (chunk_path c))"
  proof -
    from that have "\<exists>p\<in>set (map chunk_path plan). isl (api p)" by auto
    from transcribe_chunks_fail [OF this, of "[]"] show ?thesis
      by (cases "transcribe_chunks api (map chunk_path plan) []") (simp_all add: run)
  qed
  have e: "fst (transcribe_api api fault tmp_dir a s)
                = Inr (py_join '' '' (map (\<lambda>c. projr (api (chunk_path c))) plan))"
    if "\<forall>c\<in>set plan. \<not> isl (api (chunk_path c))"
  proof -
    from that have "\<forall>p\<in>set (map chunk_path plan). \<not> isl (api p)" by auto
    from transcribe_chunks_ok [OF this, of "[]"] show ?thesis
      by (simp add: run o_def)
  qed
  show ?thesis unfolding plan_def [symmetric] using a b c d e by simp
qed

theorem transcribe_api_cleanup_witness:
  "snd (transcribe_api flaky_whisper None ''/tmp/lecture2obs_1'' lecture_30mb no_files) = no_files
   \<and> isl (fst (transcribe_api flaky_whisper None ''/tmp/lecture2obs_1'' lecture_30mb no_files))"
proof -
  define plan where "plan = fst (split_audio ''/tmp/lecture2obs_1'' lecture_30mb no_files)"
  have big: "24 < file_size_mb lecture_30mb"
    by (simp add: file_size_mb_def lecture_30mb_def)
  have fresh: "''/tmp/lecture2obs_1'' \<notin> dirs no_files" "''/tmp/lecture2obs_1'' \<notin> fst ` files no_files"
    by (simp_all add: no_files_def)
  have fl: "\<lfloor>file_size_mb lecture_30mb / 24\<rfloor> = 1"
    by (simp add: file_size_mb_def lecture_30mb_def floor_eq_iff)
  have len: "length plan = 2"
    unfolding plan_def by (simp add: split_audio_length fl)
  then have one: "1 < length plan" by simp
  have "chunk_path (plan ! 1) = (''/tmp/lecture2obs_1'', chunk_name 1 ''.mp3'')"
    using split_audio_nth(3) [of 1 "''/tmp/lecture2obs_1''" lecture_30mb no_files] one
    by (simp add: plan_def lecture_30mb_def)
  then have "isl (flaky_whisper (chunk_path (plan ! 1)))"
    by (simp add: flaky_whisper_def chunk_name_def numeral_2_eq_2)
  moreover have "plan ! 1 \<in> set plan" using one by (rule nth_mem)
  ultimately have "\<exists>c\<in>set plan. isl (flaky_whisper (chunk_path c))" by blast
  moreover have "\<not> isl (fst (split_audio_run None ''/tmp/lecture2obs_1'' lecture_30mb no_files))"
    by (simp add: split_audio_run_def)
  ultimately show ?thesis
    using transcribe_api_cleanup [OF big fresh, of None flaky_whisper]
    unfolding plan_def by blast
qed

text \<open>
  When the split itself fails at an export, the directory stays behind: the call of
  \<open>split_audio\<close> is outside the \<open>try\<close> statement.
\<close>

lemma transcribe_api_split_leak:
  assumes "24 < file_size_mb a" "i < length (fst (split_audio tmp_dir a s))"
  shows "fst (transcribe_api api (Some (ExportFails i e left)) tmp_dir a s) = Inl e"
    and "tmp_dir \<in> dirs (snd (transcribe_api api (Some (ExportFails i e left)) tmp_dir a s))"
  using assms by (simp_all add: transcribe_api_def split_audio_run_def Let_def)

section \<open>Properties of the recording marker\<close>

text \<open>
  What holds of the marker functions. When the marker holds a mapping with a process id
  and the probe finds no such process, \<open>is_recording\<close> answers False and removes the marker.
  When the probe is delivered, or is refused for lack of permission, it answers True and
  leaves the marker as it is. Reading a missing marker, or one that the YAML loader rejects
  with an exception, gives \<open>None\<close> and raises nothing.
\<close>

lemma is_recording_probe:
  "(safe_load content = Inr (YMap kvs) \<and> map_of kvs ''pid'' = Some (YInt pid) \<and> kill0 pid = NoSuchProcess
      \<longrightarrow> is_recording safe_load kill0 (Some content) = (Inr False, None))
   \<and> (safe_load content = Inr (YMap kvs) \<and> map_of kvs ''pid'' = Some (YInt pid)
        \<and> (kill0 pid = Delivered \<or> kill0 pid = NotPermitted)
      \<longrightarrow> is_recording safe_load kill0 (Some content) = (Inr True, Some content))
   \<and> get_recording_info safe_load None = Inr YNull
   \<and> (safe_load content = Inl e \<and> is_Exception e
      \<longrightarrow> get_recording_info safe_load (Some content) = Inr YNull)"
  by (auto simp: is_recording_def get_recording_info_def yaml_get_def clear_state_def)

lemma is_recording_probe_sample:
  "is_recording (\<lambda>text. Inr (YMap [(''pid'', YInt 4242), (''course'', YStr ''CS 301'')]))
       (\<lambda>pid. NoSuchProcess) (Some ''pid: 4242'') = (Inr False, None)
   \<and> is_recording (\<lambda>text. Inr (YMap [(''pid'', YInt 4242), (''course'', YStr ''CS 301'')]))
       (\<lambda>pid. NotPermitted) (Some ''pid: 4242'') = (Inr True, Some ''pid: 4242'')
   \<and> get_recording_info (\<lambda>text. Inl YAMLError) (Some ''pid: [4242'') = Inr YNull"
  using is_recording_probe [of "\<lambda>text. Inr (YMap [(''pid'', YInt 4242), (''course'', YStr ''CS 301'')])"
          "''pid: 4242''" "[(''pid'', YInt 4242), (''course'', YStr ''CS 301'')]" 4242 "\<lambda>pid. NoSuchProcess"]
        is_recording_probe [of "\<lambda>text. Inr (YMap [(''pid'', YInt 4242), (''course'', YStr ''CS 301'')])"
          "''pid: 4242''" "[(''pid'', YInt 4242), (''course'', YStr ''CS 301'')]" 4242 "\<lambda>pid. NotPermitted"]
        is_recording_probe [of "\<lambda>text. Inl YAMLError" "''pid: [4242''" "[]" 0 "\<lambda>pid. NoSuchProcess" YAMLError]
  by simp

text \<open>
  Claim C5, on the code. A marker whose text the YAML loader accepts as a value that is not
  a mapping, such as the plain scalar left by a write cut short, is malformed, but
  \<open>get_recording_info\<close> does not give \<open>None\<close> for it: it returns the value. \<open>is_recording\<close> then
  raises \<open>AttributeError\<close> at \<open>info.get\<close>, instead of answering, and the marker stays.
\<close>

theorem get_recording_info_not_mapping:
  "safe_load content = Inr v \<Longrightarrow> v \<noteq> YNull \<Longrightarrow> \<not> is_mapping v \<Longrightarrow>
     get_recording_info safe_load (Some content) = Inr v
     \<and> is_recording safe_load kill0 (Some content) = (Inl AttributeError, Some content)"
  by (cases v) (simp_all add: is_recording_def get_recording_info_def yaml_get_def)

theorem get_recording_info_not_mapping_witness:
  "get_recording_info (\<lambda>text. Inr (YStr ''cour'')) (Some ''cour'') = Inr (YStr ''cour'')
   \<and> is_recording (\<lambda>text. Inr (YStr ''cour'')) (\<lambda>pid. Delivered) (Some ''cour'')
       = (Inl AttributeError, Some ''cour'')"
  using get_recording_info_not_mapping [of "\<lambda>text. Inr (YStr ''cour'')" "''cour''" "YStr ''cour''" "\<lambda>pid. Delivered"]
  by simp

text \<open>
  Claim C6, on the code. For a marker whose content the YAML loader rejects, \<open>is_recording\<close>
  answers False and raises nothing, and the marker file stays in place with its content:
  the branch returns before \<open>clear_state\<close>, which the branches for a missing process id
  and for a dead process do call.
\<close>

theorem is_recording_corrupt:
  "safe_load content = Inl e \<Longrightarrow> is_Exception e \<Longrightarrow>
     is_recording safe_load kill0 (Some content) = (Inr False, Some content)"
  by (simp add: is_recording_def get_recording_info_def)

theorem is_recording_corrupt_witness:
  "is_recording (\<lambda>text. Inl YAMLError) (\<lambda>pid. NoSuchProcess) (Some ''pid: [4242'')
     = (Inr False, Some ''pid: [4242'')"
  using is_recording_corrupt [of "\<lambda>text. Inl YAMLError" "''pid: [4242''" YAMLError "\<lambda>pid. NoSuchProcess"]
  by simp

section \<open>Properties of record_internal\<close>

lemma summarize_down:
  "\<exists>request. summarize_transcript backend_down t title course mdl calls
     = Some (Inl (SystemExit 1), calls @ [request])"
proof (cases "word_count t \<le> 10000")
  case True
  then show ?thesis by (simp add: summarize_transcript_def call_llm_down)
next
  case False
  obtain k where k: "chunk_transcript t = Some (map (window (py_split t)) [0..<k])"
    "py_split t \<noteq> [] \<longrightarrow> 0 < k"
    using chunk_transcript_closed [of t] by blast
  from False have "py_split t \<noteq> []" by (auto simp: word_count_def)
  with k(2) obtain j where "k = Suc j" by (cases k) auto
  then have "[0..<k] = 0 # [Suc 0..<Suc j]" by (simp add: upt_conv_Cons del: upt_Suc)
  with k(1) obtain c cs where "chunk_transcript t = Some (c # cs)" by simp
  with False show ?thesis
    by (simp add: summarize_transcript_def call_llm_down Let_def)
qed

text \<open>
  Claim C7, on the code. In a run where the recorder has written the WAV file, the
  configuration loads, the transcription succeeds and the summarization service raises
  \<open>OpenAIError\<close>, \<open>_call_llm\<close> leaves through \<open>sys.exit(1)\<close>. \<open>SystemExit\<close> is not an
  \<open>Exception\<close>, so the handler of \<open>record_internal\<close> does not run: the process ends with
  status 1, the WAV file is kept, no notification is emitted and the marker is not cleared.
\<close>

theorem record_internal_backend_down:
  assumes "recorder_start E = Inr ()" "recorder_stop E = Inr wav_path" "load_config E = Inr cfg"
    and "transcribe_audio E wav_path cfg = Inr transcript"
  shows "\<exists>calls'. record_internal E backend_down course title w
           = Some (Inl (SystemExit 1), w\<lparr>wav_files := insert wav_path (wav_files w), llm_calls := calls'\<rparr>)"
proof -
  define mdl where "mdl = (case summarization_model cfg of None \<Rightarrow> ''gpt-4o-mini'' | Some m \<Rightarrow> m)"
  obtain request where
    "summarize_transcript backend_down transcript title (Some course) mdl (llm_calls w)
       = Some (Inl (SystemExit 1), llm_calls w @ [request])"
    using summarize_down by blast
  then have "pipeline E backend_down course title w
      = Some (Inl (SystemExit 1), w\<lparr>wav_files := insert wav_path (wav_files w), llm_calls := llm_calls w @ [request]\<rparr>)"
    using assms by (simp add: pipeline_def Let_def mdl_def)
  then show ?thesis using assms(1)
    by (intro exI [of _ "llm_calls w @ [request]"]) (simp add: record_internal_def)
qed

theorem record_internal_backend_down_witness:
  "map_option (\<lambda>(r, w). (r, notifications w, marker w, wav_files w))
     (record_internal sample_env backend_down ''CS 301'' ''Lecture 1'' sample_world)
     = Some (Inl (SystemExit 1), [], Some ''pid: 4242'', {(''/tmp'', ''lecture_1.wav'')})"
proof -
  have "recorder_start sample_env = Inr ()" "recorder_stop sample_env = Inr (''/tmp'', ''lecture_1.wav'')"
    "load_config sample_env = Inr \<lparr>archive_dir = None, summarization_model = None\<rparr>"
    "transcribe_audio sample_env (''/tmp'', ''lecture_1.wav'') \<lparr>archive_dir = None, summarization_model = None\<rparr>
       = Inr ''hello world''"
    by (simp_all add: sample_env_def)
  from record_internal_backend_down [OF this, of "''CS 301''" "''Lecture 1''" sample_world]
  show ?thesis by (auto simp: sample_world_def)
qed

text \<open>What the handler does with an ordinary exception.\<close>

lemma record_internal_handled:
  assumes "recorder_start E = Inr ()" "pipeline E api course title w = Some (Inl e, w')" "is_Exception e"
  shows "record_internal E api course title w
           = Some (Inl (SystemExit 1), w'\<lparr>notifications := notifications w' @ [PipelineFailed], marker := None\<rparr>)"
  using assms by (simp add: record_internal_def send_notification_def clear_state_def)

end

